theory Spec2Isabelle
  imports Main "HOL-Library.Word" "HOL-Library.Code_Target_Numeral"
begin

section \<open>JavaScript values used by the uploader\<close>

text \<open>
  Text (a JavaScript string) is a list of code units; the model covers the code units
  below 256, which is what \<^typ>\<open>char\<close> holds.  Binary data (a \<open>Uint8Array\<close>) is a
  list of bytes.
\<close>

type_synonym bytes = "8 word list"

text \<open>
  \<open>new TextEncoder().encode(s)\<close>: UTF-8.  A code unit below 128 is one byte, a code
  unit from 128 to 255 is two bytes.
\<close>

definition encode_unit :: "char \<Rightarrow> bytes" where
  "encode_unit c =
     (let n = (of_char c :: nat)
      in if n < 128 then [word_of_nat n]
         else [word_of_nat (192 + n div 64), word_of_nat (128 + n mod 64)])"

definition text_encode :: "string \<Rightarrow> bytes" where
  "text_encode s = concat (map encode_unit s)"

text \<open>
  \<open>Uint8Array.prototype.toString\<close> is \<open>Array.prototype.toString\<close>: the elements
  in decimal, joined by commas.  (It is not a text decoder: the bytes of \<open>same\<close>
  print as \<open>115,97,109,101\<close>.)
\<close>

definition digit_char :: "nat \<Rightarrow> char" where
  "digit_char d = char_of (48 + d)"

definition byte_toString :: "8 word \<Rightarrow> string" where
  "byte_toString b =
     (let n = unat b
      in (if 100 \<le> n then [digit_char (n div 100)] else []) @
         (if 10 \<le> n then [digit_char (n div 10 mod 10)] else []) @
         [digit_char (n mod 10)])"

fun join_comma :: "string list \<Rightarrow> string" where
  "join_comma [] = []"
| "join_comma [s] = s"
| "join_comma (s # t # ss) = s @ '','' @ join_comma (t # ss)"

definition uint8array_toString :: "bytes \<Rightarrow> string" where
  "uint8array_toString bs = join_comma (map byte_toString bs)"

subsection \<open>Objects of type \<open>Record<string, string>\<close>\<close>

text \<open>
  An object is the list of its own properties in insertion order, keys distinct.  The
  objects of the uploader are made by \<open>{}\<close> and \<open>{ ...x }\<close>, so their prototype is
  \<open>Object.prototype\<close>, and \<open>ob[k]\<close> finds its members where \<open>ob\<close> has no own
  property \<open>k\<close>.
\<close>

type_synonym obj = "(string \<times> string) list"

definition object_prototype_keys :: "string list" where
  "object_prototype_keys =
     [''constructor'', ''__defineGetter__'', ''__defineSetter__'', ''hasOwnProperty'',
      ''__lookupGetter__'', ''__lookupSetter__'', ''isPrototypeOf'', ''propertyIsEnumerable'',
      ''toString'', ''valueOf'', ''__proto__'', ''toLocaleString'']"

text \<open>
  The value of \<open>ob[k]\<close>: an own property, else the member \<open>k\<close> of
  \<open>Object.prototype\<close> (a function, or for \<open>__proto__\<close> the prototype itself: truthy,
  and no string), else \<open>undefined\<close>.
\<close>

datatype 'a lookup = Own 'a | Proto string | Undefined

definition obj_read :: "(string \<times> 'a) list \<Rightarrow> string \<Rightarrow> 'a lookup" where
  "obj_read ob k =
     (case map_of ob k of
        Some v \<Rightarrow> Own v
      | None \<Rightarrow> if k \<in> set object_prototype_keys then Proto k else Undefined)"

text \<open>The own property \<open>k\<close>, for a key that is known to be one (\<open>for ... in\<close>).\<close>

definition obj_get :: "obj \<Rightarrow> string \<Rightarrow> string option" where
  "obj_get ob k = map_of ob k"

fun obj_set :: "(string \<times> 'a) list \<Rightarrow> string \<Rightarrow> 'a \<Rightarrow> (string \<times> 'a) list" where
  "obj_set [] k v = [(k, v)]"
| "obj_set ((k', v') # ob) k v =
     (if k' = k then (k, v) # ob else (k', v') # obj_set ob k v)"

text \<open>
  The assignment \<open>ob[k] = v\<close> with a string \<open>v\<close>.  \<open>__proto__\<close> is an accessor of
  \<open>Object.prototype\<close>, and its setter ignores a value that is neither an object nor
  \<open>null\<close>: the assignment creates no property.  The other members are writable data
  properties, which an assignment shadows with an own property.
\<close>

definition obj_assign :: "(string \<times> 'a) list \<Rightarrow> string \<Rightarrow> 'a \<Rightarrow> (string \<times> 'a) list" where
  "obj_assign ob k v =
     (if k = ''__proto__'' \<and> map_of ob k = None then ob else obj_set ob k v)"

text \<open>\<open>delete ob[k]\<close> removes an own property and nothing else.\<close>

definition obj_delete :: "obj \<Rightarrow> string \<Rightarrow> obj" where
  "obj_delete ob k = filter (\<lambda>kv. fst kv \<noteq> k) ob"

text \<open>
  Key order of \<open>Object.keys\<close> and \<open>for ... in\<close>: the keys that are array indices
  (canonical decimal numerals below \<open>2^32 - 1\<close>) in ascending numeric order, then the
  other keys in insertion order.
\<close>

definition is_digit :: "char \<Rightarrow> bool" where
  "is_digit c = (48 \<le> (of_char c :: nat) \<and> (of_char c :: nat) \<le> 57)"

definition dec_val :: "string \<Rightarrow> nat" where
  "dec_val k = foldl (\<lambda>a c. 10 * a + ((of_char c :: nat) - 48)) 0 k"

definition is_array_index :: "string \<Rightarrow> bool" where
  "is_array_index k =
     (k \<noteq> [] \<and> list_all is_digit k \<and> (k = ''0'' \<or> hd k \<noteq> CHR ''0'') \<and>
      dec_val k < 2 ^ 32 - 1)"

definition key_order :: "string list \<Rightarrow> string list" where
  "key_order ks =
     sort_key dec_val (filter is_array_index ks) @
     filter (\<lambda>k. \<not> is_array_index k) ks"

definition obj_keys :: "(string \<times> 'a) list \<Rightarrow> string list" where
  "obj_keys ob = key_order (map fst ob)"

section \<open>The container protocol (\<open>uploadFiles\<close>)\<close>

text \<open>
  Messages of the two directions, after decoding.  \<open>remote_file\<close> is an entry of the
  \<open>Files\<close> listing: a path and optional data.  A frame received on the socket is
  either not an \<open>ArrayBuffer\<close> or a \<open>Main\<close> message: a type and, when the value
  field is present, its decoded listing.  The byte layout of the messages is left to the
  generated decoders; a frame that they cannot decode is an event of its own, below.
\<close>

record remote_file =
  path :: string
  data :: "bytes option"

datatype client_msg = GetFiles | DeleteFile string | SetFile string bytes

datatype out_type = Initialized | NotInitialized | Files | OtherType

datatype frame = TextFrame | BinaryFrame out_type "remote_file list option"

text \<open>
  Timer callbacks registered by \<open>setTimeout\<close>/\<open>sleep\<close>, and the observable actions
  in the order in which they happen.
\<close>

datatype timer_cb = RetryUpload nat | CloseSocket nat | TimeoutGuard nat

datatype event =
    WsOpen nat string
  | WsSend nat client_msg
  | WsClose nat
  | PropDeleted nat string
  | ConsoleWarn string
  | Resolve nat

text \<open>
  One call of \<open>uploadFiles\<close> is a session: its socket is the entry of the
  \<open>websockets\<close> registry with the same index.  \<open>files\<close> and \<open>filesBackup\<close> are
  references into the store of objects; \<open>then_chain\<close> lists the sessions whose
  \<open>resolve\<close> runs when this session's promise resolves (\<open>.then(resolve)\<close>);
  \<open>outcome\<close> is the state of the promise that the call returns.
\<close>

datatype promise = Pending | Fulfilled | Rejected

record session =
  token :: string
  files_ref :: nat
  backup_ref :: nat
  finished :: bool
  then_chain :: "nat list"
  outcome :: promise

definition settled :: "session \<Rightarrow> bool" where
  "settled s = (outcome s = Fulfilled)"

text \<open>
  The process: the clock, the store of objects, the sessions, the pending timers and the
  actions so far.  \<open>crashed\<close> says that an uncaught exception has ended the process.
\<close>

record world =
  clock :: nat
  heap :: "nat \<Rightarrow> obj"
  next_ref :: nat
  sessions :: "session list"
  timers :: "(nat \<times> timer_cb) list"
  trace :: "event list"
  crashed :: bool

text \<open>
  An action is recorded in the trace.  \<open>ws.send\<close> is recorded as it is called; on a
  socket that is already closing the call is taken to return without throwing, as it
  does in the current major version of the library for a call without a callback.
\<close>

definition emit :: "event \<Rightarrow> world \<Rightarrow> world" where
  "emit e w = w\<lparr>trace := trace w @ [e]\<rparr>"

definition ws_send :: "nat \<Rightarrow> client_msg \<Rightarrow> world \<Rightarrow> world" where
  "ws_send sid m w = emit (WsSend sid m) w"

definition set_timeout :: "nat \<Rightarrow> timer_cb \<Rightarrow> world \<Rightarrow> world" where
  "set_timeout ms cb w = w\<lparr>timers := timers w @ [(clock w + ms, cb)]\<rparr>"

definition set_finished :: "nat \<Rightarrow> world \<Rightarrow> world" where
  "set_finished sid w =
     w\<lparr>sessions := (sessions w)[sid := (sessions w ! sid)\<lparr>finished := True\<rparr>]\<rparr>"

text \<open>
  \<open>resolve()\<close> of session \<open>sid\<close>: its promise resolves, and with it the promises
  chained to it.  Resolving a promise that is no longer pending changes nothing.
\<close>

fun fulfil :: "promise \<Rightarrow> promise" where
  "fulfil Pending = Fulfilled"
| "fulfil Fulfilled = Fulfilled"
| "fulfil Rejected = Rejected"

fun settle :: "nat list \<Rightarrow> session list \<Rightarrow> session list" where
  "settle [] ss = ss"
| "settle (p # ps) ss = settle ps (ss[p := (ss ! p)\<lparr>outcome := fulfil (outcome (ss ! p))\<rparr>])"

definition resolve :: "nat \<Rightarrow> world \<Rightarrow> world" where
  "resolve sid w =
     emit (Resolve sid)
       (w\<lparr>sessions := settle (sid # then_chain (sessions w ! sid)) (sessions w)\<rparr>)"

text \<open>
  \<open>uploadFiles(token, files)\<close> up to the return of the promise: the shallow copy
  \<open>filesBackup = { ...files }\<close>, the new socket, the registration of the message
  handler and of the 10 second timer.  The executor of the promise takes \<open>resolve\<close>
  only, and no listener is registered but the one for \<open>message\<close>.
\<close>

definition control_url :: "string \<Rightarrow> string" where
  "control_url tok = ''wss://cratecode.com/control/'' @ tok"

definition uploadFiles :: "string \<Rightarrow> nat \<Rightarrow> nat list \<Rightarrow> world \<Rightarrow> world" where
  "uploadFiles tok fr chain w =
     (let b = next_ref w;
          sid = length (sessions w);
          w1 = w\<lparr>heap := (heap w)(b := heap w fr), next_ref := Suc b\<rparr>;
          w2 = emit (WsOpen sid (control_url tok))
                 (w1\<lparr>sessions := sessions w1 @
                    [\<lparr>token = tok, files_ref = fr, backup_ref = b, finished = False,
                      then_chain = chain, outcome = Pending\<rparr>]\<rparr>)
      in set_timeout 10000 (TimeoutGuard sid) w2)"

text \<open>First loop: a \<open>DeleteFile\<close> for every listed path not among \<open>items\<close>.\<close>

fun delete_loop :: "nat \<Rightarrow> string list \<Rightarrow> remote_file list \<Rightarrow> world \<Rightarrow> world" where
  "delete_loop sid items [] w = w"
| "delete_loop sid items (f # fs) w =
     delete_loop sid items fs
       (if path f \<notin> set items then ws_send sid (DeleteFile (path f)) w else w)"

text \<open>
  Second loop: \<open>if (files[file.path] === file.data?.toString()) delete files[file.path]\<close>.
  The right-hand side is \<open>undefined\<close> or a string.  The left-hand side is a string for
  an own property; a member of \<open>Object.prototype\<close> is equal to neither.
\<close>

definition same_as_remote :: "obj \<Rightarrow> remote_file \<Rightarrow> bool" where
  "same_as_remote files f =
     (case obj_read files (path f) of
        Own s \<Rightarrow> (case data f of None \<Rightarrow> False | Some bs \<Rightarrow> s = uint8array_toString bs)
      | Proto k \<Rightarrow> False
      | Undefined \<Rightarrow> data f = None)"

definition delete_prop :: "nat \<Rightarrow> string \<Rightarrow> world \<Rightarrow> world" where
  "delete_prop r k w = emit (PropDeleted r k) (w\<lparr>heap := (heap w)(r := obj_delete (heap w r) k)\<rparr>)"

fun prune_loop :: "nat \<Rightarrow> remote_file list \<Rightarrow> world \<Rightarrow> world" where
  "prune_loop r [] w = w"
| "prune_loop r (f # fs) w =
     prune_loop r fs
       (if same_as_remote (heap w r) f then delete_prop r (path f) w else w)"

text \<open>
  Third loop: \<open>for (const file in files)\<close> sends a \<open>SetFile\<close> with the encoded
  \<open>files[file]\<close>.
\<close>

definition prop_text :: "obj \<Rightarrow> string \<Rightarrow> string" where
  "prop_text ob k = (case obj_get ob k of None \<Rightarrow> [] | Some v \<Rightarrow> v)"

fun write_loop :: "nat \<Rightarrow> nat \<Rightarrow> string list \<Rightarrow> world \<Rightarrow> world" where
  "write_loop sid r [] w = w"
| "write_loop sid r (k # ks) w =
     write_loop sid r ks (ws_send sid (SetFile k (text_encode (prop_text (heap w r) k))) w)"

definition on_files :: "nat \<Rightarrow> remote_file list \<Rightarrow> world \<Rightarrow> world" where
  "on_files sid listing w =
     (let r = files_ref (sessions w ! sid);
          items = obj_keys (heap w r);
          w1 = delete_loop sid items listing w;
          w2 = prune_loop r listing w1;
          w3 = write_loop sid r (obj_keys (heap w2 r)) w2;
          w4 = set_timeout 1000 (CloseSocket sid) w3;
          w5 = set_finished sid w4
      in resolve sid w5)"

definition on_not_initialized :: "nat \<Rightarrow> world \<Rightarrow> world" where
  "on_not_initialized sid w =
     (let w1 = emit (ConsoleWarn ''Received NotInitialized, retrying...'') w;
          w2 = set_finished sid w1;
          w3 = emit (WsClose sid) w2
      in set_timeout 1000 (RetryUpload sid) w3)"

text \<open>The \<open>message\<close> handler of session \<open>sid\<close>; a frame for no socket is dropped.\<close>

definition on_message :: "nat \<Rightarrow> frame \<Rightarrow> world \<Rightarrow> world" where
  "on_message sid fr w =
     (if length (sessions w) \<le> sid then w
      else case fr of
             TextFrame \<Rightarrow> w
           | BinaryFrame ty val \<Rightarrow>
               (case ty of
                  Initialized \<Rightarrow> ws_send sid GetFiles w
                | NotInitialized \<Rightarrow> on_not_initialized sid w
                | Files \<Rightarrow> (case val of None \<Rightarrow> w | Some listing \<Rightarrow> on_files sid listing w)
                | OtherType \<Rightarrow> w))"

text \<open>The timer callbacks.\<close>

definition fire :: "timer_cb \<Rightarrow> world \<Rightarrow> world" where
  "fire cb w =
     (case cb of
        RetryUpload sid \<Rightarrow>
          (let s = sessions w ! sid
           in uploadFiles (token s) (backup_ref s) (sid # then_chain s) w)
      | CloseSocket sid \<Rightarrow> emit (WsClose sid) w
      | TimeoutGuard sid \<Rightarrow>
          (if finished (sessions w ! sid) then w
           else resolve sid
                  (emit (ConsoleWarn ''Timed out waiting for websocket to close.'') w)))"

text \<open>
  The event loop.  \<open>run_timers t\<close> runs the callbacks due up to time \<open>t\<close> (in
  milliseconds), earliest deadline first and in registration order among equal deadlines;
  \<open>exec\<close> delivers the frames of a schedule, each with its arrival time and socket
  (a schedule on which no socket raises an error; \<open>run_events\<close> below is the general
  loop).
\<close>

fun next_due :: "(nat \<times> timer_cb) list \<Rightarrow> (nat \<times> timer_cb) option" where
  "next_due [] = None"
| "next_due (x # xs) =
     (case next_due xs of
        None \<Rightarrow> Some x
      | Some y \<Rightarrow> if fst y < fst x then Some y else Some x)"

definition timer_weight :: "(nat \<times> timer_cb) \<Rightarrow> nat" where
  "timer_weight x = (case snd x of RetryUpload _ \<Rightarrow> 2 | _ \<Rightarrow> 1)"

function run_timers :: "nat \<Rightarrow> world \<Rightarrow> world" where
  "run_timers t w =
     (case next_due (timers w) of
        None \<Rightarrow> w\<lparr>clock := max (clock w) t\<rparr>
      | Some x \<Rightarrow>
          if t < fst x then w\<lparr>clock := max (clock w) t\<rparr>
          else run_timers t
                 (fire (snd x) (w\<lparr>clock := max (clock w) (fst x),
                                  timers := remove1 x (timers w)\<rparr>)))"
  by pat_completeness auto

termination run_timers
proof (relation "measure (\<lambda>(t, w). sum_list (map timer_weight (timers w)))")
  show "wf (measure (\<lambda>(t, w). sum_list (map timer_weight (timers w))))"
    by simp
next
  fix t :: nat and w :: world and x :: "nat \<times> timer_cb"
  assume due: "next_due (timers w) = Some x" and "\<not> t < fst x"
  have mem: "y \<in> set ys" if "next_due ys = Some y" for y :: "nat \<times> timer_cb" and ys
    using that by (induction ys arbitrary: y) (auto split: option.splits if_splits)
  have rem: "sum_list (map timer_weight (remove1 y ys)) + timer_weight y =
             sum_list (map timer_weight ys)" if "y \<in> set ys" for y ys
    using that by (induction ys) auto
  let ?w = "w\<lparr>clock := max (clock w) (fst x), timers := remove1 x (timers w)\<rparr>"
  have "sum_list (map timer_weight (timers (fire (snd x) ?w))) <
        sum_list (map timer_weight (remove1 x (timers w))) + timer_weight x"
    by (cases "snd x")
       (simp_all add: fire_def uploadFiles_def Let_def set_timeout_def emit_def resolve_def
          timer_weight_def)
  with rem [OF mem [OF due]]
  show "((t, fire (snd x) ?w), (t, w)) \<in>
          measure (\<lambda>(t, w). sum_list (map timer_weight (timers w)))"
    by simp
qed

declare run_timers.simps [simp del]

fun exec :: "(nat \<times> nat \<times> frame) list \<Rightarrow> world \<Rightarrow> world" where
  "exec [] w = w"
| "exec ((t, sid, fr) # evs) w = exec evs (on_message sid fr (run_timers t w))"

text \<open>
  The call \<open>uploadFiles(token, files)\<close> made by \<open>handleLesson\<close>: the desired file
  set is the object at reference 0, and nothing is chained to the returned promise
  inside the protocol (the caller awaits it).
\<close>

definition start :: "string \<Rightarrow> obj \<Rightarrow> world" where
  "start tok files =
     uploadFiles tok 0 []
       \<lparr>clock = 0, heap = (\<lambda>_. [])(0 := files), next_ref = 1, sessions = [], timers = [],
        trace = [], crashed = False\<rparr>"

text \<open>
  What a socket can raise besides a message that decodes.  An \<open>error\<close> event (the
  connection fails or breaks): \<open>uploadFiles\<close> registers no listener for it, so the
  event is thrown.  A binary message that the generated decoders reject: \<open>fromBinary\<close>
  throws inside the listener.  Both are uncaught exceptions, and the process ends: no
  timer runs after it and no promise resolves.  \<open>run_events\<close> is the event loop for
  schedules that may hold such events; \<open>advance\<close> lets time pass in a process that may
  have ended.
\<close>

datatype socket_event = Message frame | Undecodable | SocketError

definition uncaught :: "nat \<Rightarrow> world \<Rightarrow> world" where
  "uncaught sid w = (if sid < length (sessions w) then w\<lparr>crashed := True\<rparr> else w)"

fun deliver :: "nat \<Rightarrow> socket_event \<Rightarrow> world \<Rightarrow> world" where
  "deliver sid (Message fr) w = on_message sid fr w"
| "deliver sid Undecodable w = uncaught sid w"
| "deliver sid SocketError w = uncaught sid w"

definition advance :: "nat \<Rightarrow> world \<Rightarrow> world" where
  "advance t w = (if crashed w then w else run_timers t w)"

fun run_events :: "(nat \<times> nat \<times> socket_event) list \<Rightarrow> world \<Rightarrow> world" where
  "run_events [] w = w"
| "run_events ((t, sid, ev) # evs) w =
     run_events evs (if crashed (advance t w) then advance t w else deliver sid ev (advance t w))"


definition timeout_warning :: event where
  "timeout_warning = ConsoleWarn ''Timed out waiting for websocket to close.''"

text \<open>What was sent on the socket of session \<open>sid\<close>, in order.\<close>

fun sent_on :: "nat \<Rightarrow> event list \<Rightarrow> client_msg list" where
  "sent_on sid [] = []"
| "sent_on sid (WsSend s m # es) = (if s = sid then m # sent_on sid es else sent_on sid es)"
| "sent_on sid (_ # es) = sent_on sid es"

section \<open>Run state and name resolution (\<open>mapID\<close>)\<close>

text \<open>
  JSON values as \<open>JSON.parse\<close> returns them; numbers are modelled as integers.  An
  object lists its own properties in the order in which JavaScript enumerates them.
\<close>

datatype json =
    JNull
  | JBool bool
  | JNum int
  | JStr string
  | JArr "json list"
  | JObj "(string \<times> json) list"

record image_record =
  img_id :: string
  img_format :: string
  img_width :: "nat option"
  img_height :: "nat option"

text \<open>
  The application state.  \<open>itemCount\<close> and \<open>idsMap\<close> are objects, so the field
  holds a reference; the objects themselves live in the environment.
\<close>

record State =
  itemCount :: nat
  idsMap :: nat
  key :: string
  templates :: "string option"
  configTemplate :: "json option"
  images :: "(string \<times> image_record) list option"

record env =
  counters :: "nat \<Rightarrow> nat"
  memos :: "nat \<Rightarrow> obj"
  requests :: "string list"
  sleeps :: nat
  console :: "string list"

datatype error = Error string | TypeError string | AxiosError "nat option"

text \<open>
  The shallow copy \<open>{ ...state }\<close>: a new state object with the same field values,
  references included.
\<close>

definition fork :: "State \<Rightarrow> State" where
  "fork st =
     \<lparr>itemCount = itemCount st, idsMap = idsMap st, key = key st,
      templates = templates st, configTemplate = configTemplate st, images = images st\<rparr>"

text \<open>\<open>delay\<close>: every 50th call sleeps for a minute.\<close>

definition delay :: "State \<Rightarrow> env \<Rightarrow> env" where
  "delay st e =
     (let n = counters e (itemCount st) + 1;
          e1 = e\<lparr>counters := (counters e)(itemCount st := n)\<rparr>
      in if n mod 50 = 0
         then e1\<lparr>sleeps := sleeps e1 + 1,
                 console := console e1 @ [''Hit ratelimit, sleeping.'', ''Waking up.'']\<rparr>
         else e1)"

text \<open>
  What \<open>axios.get(".../api/id/" + id)\<close> settles with, after the response
  interceptor of \<open>upload\<close> (which repeats a request answered with 429): the \<open>id\<close>
  of the response data, or an error with the status of its response, if it has one.
\<close>

datatype id_response = IdFound string | IdFailed "nat option"

text \<open>
  What \<open>mapID\<close> returns when it does not return \<open>null\<close>: a string, or, where
  \<open>state.idsMap[id]\<close> has found a member of \<open>Object.prototype\<close>, that member.
\<close>

datatype id_value = IdText string | IdMember string

text \<open>
  \<open>state.idsMap[id]\<close>, when it is truthy: a non-empty string of the memo, or the
  member of \<open>Object.prototype\<close> that a name like \<open>constructor\<close> finds.
\<close>

definition memo_hit :: "State \<Rightarrow> env \<Rightarrow> string \<Rightarrow> id_value option" where
  "memo_hit st e s =
     (case obj_read (memos e (idsMap st)) s of
        Own v \<Rightarrow> if v = [] then None else Some (IdText v)
      | Proto k \<Rightarrow> Some (IdMember k)
      | Undefined \<Rightarrow> None)"

definition mapID ::
  "(string \<Rightarrow> id_response) \<Rightarrow> string option \<Rightarrow> State \<Rightarrow> env \<Rightarrow>
   (error + id_value option) \<times> env"
where
  "mapID net name st e =
     (case name of
        None \<Rightarrow> (Inr None, e)
      | Some s \<Rightarrow>
          if take 1 s = '':'' then (Inr (Some (IdText (drop 1 s))), e)
          else (case memo_hit st e s of
                  Some v \<Rightarrow> (Inr (Some v), delay st e)
                | None \<Rightarrow>
                    (let e1 = e\<lparr>requests := requests e @ [s]\<rparr>
                     in case net s of
                          IdFound r \<Rightarrow>
                            (Inr (Some (IdText r)),
                             delay st
                               (e1\<lparr>memos :=
                                     (memos e1)(idsMap st :=
                                        obj_assign (memos e1 (idsMap st)) s r)\<rparr>))
                        | IdFailed status \<Rightarrow>
                            if status = Some 404 then (Inr None, delay st e1)
                            else (Inl (AxiosError status), e1))))"

text \<open>\<open>mapIDNoNull\<close>: \<open>mapID\<close> with an error in place of \<open>null\<close>.\<close>

definition null_text :: "string option \<Rightarrow> string" where
  "null_text name = (case name of None \<Rightarrow> ''null'' | Some s \<Rightarrow> s)"

definition mapIDNoNull ::
  "(string \<Rightarrow> id_response) \<Rightarrow> string option \<Rightarrow> State \<Rightarrow> env \<Rightarrow> (error + id_value) \<times> env"
where
  "mapIDNoNull net name st e =
     (case mapID net name st e of
        (Inl err, e1) \<Rightarrow> (Inl err, e1)
      | (Inr None, e1) \<Rightarrow> (Inl (Error (''Could not find an ID for '' @ null_text name @ ''.'')), e1)
      | (Inr (Some v), e1) \<Rightarrow> (Inr v, e1))"

text \<open>The state made by \<open>upload\<close>: a fresh counter and a fresh, empty memo.\<close>

definition upload_state :: "string \<Rightarrow> State \<times> env" where
  "upload_state k =
     (\<lparr>itemCount = 0, idsMap = 0, key = k, templates = None, configTemplate = None,
       images = None\<rparr>,
      \<lparr>counters = (\<lambda>_. 0), memos = (\<lambda>_. []), requests = [], sleeps = 0, console = []\<rparr>)"

section \<open>The manifest walker (\<open>readManifest\<close>)\<close>

text \<open>\<open>typeof\<close>, \<open>Array.isArray\<close> and truthiness of a value that may be \<open>undefined\<close>.\<close>

datatype js_type = TUndefined | TObject | TBoolean | TNumber | TString

definition typeof :: "json option \<Rightarrow> js_type" where
  "typeof v =
     (case v of
        None \<Rightarrow> TUndefined
      | Some (JBool _) \<Rightarrow> TBoolean
      | Some (JNum _) \<Rightarrow> TNumber
      | Some (JStr _) \<Rightarrow> TString
      | Some _ \<Rightarrow> TObject)"

definition isArray :: "json option \<Rightarrow> bool" where
  "isArray v = (case v of Some (JArr _) \<Rightarrow> True | _ \<Rightarrow> False)"

definition truthy :: "json option \<Rightarrow> bool" where
  "truthy v =
     (case v of
        None \<Rightarrow> False
      | Some JNull \<Rightarrow> False
      | Some (JBool b) \<Rightarrow> b
      | Some (JNum n) \<Rightarrow> n \<noteq> 0
      | Some (JStr s) \<Rightarrow> s \<noteq> []
      | Some _ \<Rightarrow> True)"

text \<open>\<open>data[k]\<close> for the parsed manifest.\<close>

definition field :: "json \<Rightarrow> string \<Rightarrow> json option" where
  "field d k = (case d of JObj kvs \<Rightarrow> map_of kvs k | _ \<Rightarrow> None)"

text \<open>
  Conversion of a value to a string, as a property key needs it (\<open>x in classMap\<close>,
  \<open>classMap[x]\<close>): decimal for an integer (of magnitude below \<open>10^21\<close>), the elements
  joined by commas for an array with \<open>null\<close> as the empty string.
\<close>

fun nat_toString :: "nat \<Rightarrow> string" where
  "nat_toString n =
     (if n < 10 then [digit_char n] else nat_toString (n div 10) @ [digit_char (n mod 10)])"

declare nat_toString.simps [simp del]

definition int_toString :: "int \<Rightarrow> string" where
  "int_toString i = (if i < 0 then ''-'' @ nat_toString (nat (- i)) else nat_toString (nat i))"

fun js_toString :: "json \<Rightarrow> string" where
  "js_toString JNull = ''null''"
| "js_toString (JBool b) = (if b then ''true'' else ''false'')"
| "js_toString (JNum i) = int_toString i"
| "js_toString (JStr s) = s"
| "js_toString (JArr xs) =
     join_comma (map (\<lambda>x. if x = JNull then [] else js_toString x) xs)"
| "js_toString (JObj kvs) = ''[object Object]''"

definition to_property_key :: "json option \<Rightarrow> string" where
  "to_property_key v = (case v of None \<Rightarrow> ''undefined'' | Some x \<Rightarrow> js_toString x)"

definition classMap :: "(string \<times> nat) list" where
  "classMap = [(''tutorial'', 1), (''activity'', 2), (''project'', 3), (''challenge'', 4)]"

text \<open>
  \<open>lessonClass in classMap\<close> looks at inherited properties too;
  \<open>classMap[lessonClass] || 0\<close> is then a number or an inherited member.
\<close>

datatype lesson_class = ClassNumber nat | ClassInherited string

definition in_classMap :: "json option \<Rightarrow> bool" where
  "in_classMap v =
     (to_property_key v \<in> set (map fst classMap) \<or>
      to_property_key v \<in> set object_prototype_keys)"

definition class_value :: "json option \<Rightarrow> lesson_class" where
  "class_value v =
     (case map_of classMap (to_property_key v) of
        Some n \<Rightarrow> ClassNumber n
      | None \<Rightarrow>
          if to_property_key v \<in> set object_prototype_keys
          then ClassInherited (to_property_key v)
          else ClassNumber 0)"

text \<open>
  What \<open>readManifest\<close> is run against: the file system with the JSON parser, the
  \<open>path\<close> module, and the two handlers, which talk to the network.
\<close>

record platform =
  parse_file :: "string \<Rightarrow> error + json"
  path_dirname :: "string \<Rightarrow> string"
  path_join :: "string list \<Rightarrow> string"
  handleUnit :: "State \<Rightarrow> string \<Rightarrow> string \<Rightarrow> json \<Rightarrow> env \<Rightarrow> (error + string) \<times> env"
  handleLesson ::
    "State \<Rightarrow> string \<Rightarrow> string \<Rightarrow> string option \<Rightarrow> string option \<Rightarrow> string option \<Rightarrow>
     lesson_class \<Rightarrow> string \<Rightarrow> env \<Rightarrow> (error + string) \<times> env"

text \<open>The double quote, and the message of the error for an unknown type.\<close>

definition dq :: string where
  "dq = [CHR 0x22]"

definition type_error_text :: string where
  "type_error_text =
     ''Type must be either undefined, '' @ dq @ ''unit'' @ dq @ '', or '' @ dq @ ''lesson'' @ dq @ ''.''"

definition console_log :: "string \<Rightarrow> env \<Rightarrow> env" where
  "console_log line e = e\<lparr>console := console e @ [line]\<rparr>"

text \<open>The \<open>templates\<close> and \<open>configTemplate\<close> steps: they assign to the state.\<close>

definition set_templates :: "platform \<Rightarrow> string \<Rightarrow> json \<Rightarrow> State \<Rightarrow> error + State" where
  "set_templates pf newBase d st =
     (if truthy (field d ''templates'')
      then (case field d ''templates'' of
              Some (JStr t) \<Rightarrow> Inr (st\<lparr>templates := Some (path_join pf [newBase, t])\<rparr>)
            | _ \<Rightarrow> Inl (Error ''Templates must be a string!''))
      else Inr st)"

definition set_configTemplate :: "json \<Rightarrow> State \<Rightarrow> error + State" where
  "set_configTemplate d st =
     (if truthy (field d ''configTemplate'')
      then (if typeof (field d ''configTemplate'') \<noteq> TObject \<and> \<not> isArray (field d ''configTemplate'')
            then Inl (Error ''Templates must be a string!'')
            else Inr (st\<lparr>configTemplate := field d ''configTemplate''\<rparr>))
      else Inr st)"

text \<open>A field that must be a string; a field that must be a string or \<open>null\<close>.\<close>

definition opt_string :: "json option \<Rightarrow> string option" where
  "opt_string v = (case v of Some (JStr s) \<Rightarrow> Some s | _ \<Rightarrow> None)"

definition unit_branch :: "platform \<Rightarrow> State \<Rightarrow> string \<Rightarrow> json \<Rightarrow> env \<Rightarrow> (error + unit) \<times> env" where
  "unit_branch pf st manifest d e =
     (case field d ''id'' of
        Some (JStr i) \<Rightarrow>
          (case field d ''name'' of
             Some (JStr nm) \<Rightarrow>
               (case field d ''lessons'' of
                  Some lessons \<Rightarrow>
                    if typeof (Some lessons) \<noteq> TObject \<or> isArray (Some lessons)
                    then (Inl (Error ''lessons must be an object!''), e)
                    else (case handleUnit pf (fork st) i nm lessons e of
                            (Inl err, e1) \<Rightarrow> (Inl err, e1)
                          | (Inr unitID, e1) \<Rightarrow>
                              (Inr (),
                               console_log
                                 (''Uploaded Unit '' @ dq @ manifest @ dq @ '' (ID: '' @ dq @ unitID @ dq @ '').'')
                                 e1))
                | None \<Rightarrow> (Inl (Error ''lessons must be an object!''), e))
           | _ \<Rightarrow> (Inl (Error ''name must be a string!''), e))
      | _ \<Rightarrow> (Inl (Error ''id must be a string!''), e))"

definition lesson_branch :: "platform \<Rightarrow> State \<Rightarrow> string \<Rightarrow> json \<Rightarrow> env \<Rightarrow> (error + unit) \<times> env" where
  "lesson_branch pf st manifest d e =
     (let unit = field d ''unit''; spec = field d ''spec''; extendsTemplate = field d ''extends'';
          lessonClass = field d ''class''
      in case field d ''id'' of
           Some (JStr i) \<Rightarrow>
             (case field d ''name'' of
                Some (JStr nm) \<Rightarrow>
                  if typeof unit \<noteq> TString \<and> unit \<noteq> Some JNull
                  then (Inl (Error ''unit must be a string or null!''), e)
                  else if typeof spec \<noteq> TString \<and> spec \<noteq> Some JNull
                  then (Inl (Error ''spec must be a string or null!''), e)
                  else if typeof extendsTemplate \<noteq> TString \<and> extendsTemplate \<noteq> Some JNull \<and>
                          extendsTemplate \<noteq> None
                  then (Inl (Error ''extends must be a string or null!''), e)
                  else if typeof extendsTemplate = TString \<and> templates st = None
                  then (Inl (Error ''extends must be used with templates!''), e)
                  else if \<not> in_classMap lessonClass \<and> lessonClass \<noteq> Some JNull
                  then (Inl (Error (''class must be null or one of ['' @
                              ''tutorial, activity, project, challenge'' @ '']!'')), e)
                  else (case handleLesson pf (fork st) i nm (opt_string unit) (opt_string spec)
                               (opt_string extendsTemplate) (class_value lessonClass)
                               (path_dirname pf manifest) e of
                          (Inl err, e1) \<Rightarrow> (Inl err, e1)
                        | (Inr lessonID, e1) \<Rightarrow>
                            (Inr (),
                             console_log
                               (''Uploaded Lesson '' @ dq @ manifest @ dq @ '' (ID: '' @ dq @ lessonID @ dq @ '').'')
                               e1))
              | _ \<Rightarrow> (Inl (Error ''name must be a string!''), e))
         | _ \<Rightarrow> (Inl (Error ''id must be a string!''), e))"

text \<open>
  From \<open>if (!data["type"]) return;\<close> to the end of the \<open>try\<close> block: the switch on
  the type and the final \<open>delay\<close>.
\<close>

definition dispatch :: "platform \<Rightarrow> State \<Rightarrow> string \<Rightarrow> json \<Rightarrow> env \<Rightarrow> (error + unit) \<times> env" where
  "dispatch pf st manifest d e =
     (if \<not> truthy (field d ''type'') then (Inr (), e)
      else case (if field d ''type'' = Some (JStr ''unit'') then unit_branch pf st manifest d e
                 else if field d ''type'' = Some (JStr ''lesson'') then lesson_branch pf st manifest d e
                 else (Inl (Error type_error_text), e)) of
             (Inl err, e1) \<Rightarrow> (Inl err, e1)
           | (Inr u, e1) \<Rightarrow> (Inr (), delay st e1))"

text \<open>The \<open>catch\<close> block: it logs where the error passed and throws it again.\<close>

definition on_error :: "string option \<Rightarrow> string \<Rightarrow> (error + unit) \<times> env \<Rightarrow> (error + unit) \<times> env" where
  "on_error parent manifest r =
     (case r of
        (Inl err, e) \<Rightarrow>
          (Inl err,
           console_log
             (case parent of
                None \<Rightarrow> ''An error occurred while reading '' @ manifest @ '':''
              | Some p \<Rightarrow>
                  if p = [] then ''An error occurred while reading '' @ manifest @ '':''
                  else ''An error occurred while reading '' @ manifest @ '' (called by '' @ p @ ''):'')
             e)
      | (Inr u, e) \<Rightarrow> (Inr u, e))"

text \<open>
  \<open>and_then\<close> passes on an error (a \<open>throw\<close>) or the lack of a result, and
  otherwise continues with the value and the environment.
\<close>

definition and_then ::
  "((error + 'a) \<times> env) option \<Rightarrow> ('a \<Rightarrow> env \<Rightarrow> ((error + 'b) \<times> env) option) \<Rightarrow>
   ((error + 'b) \<times> env) option"
where
  "and_then m f =
     (case m of
        None \<Rightarrow> None
      | Some (Inl err, e) \<Rightarrow> Some (Inl err, e)
      | Some (Inr x, e) \<Rightarrow> f x e)"

text \<open>The parsed manifest must be an object; \<open>null\<close> passes the test and fails at the first property read.\<close>

definition check_manifest :: "error + json \<Rightarrow> env \<Rightarrow> ((error + json) \<times> env) option" where
  "check_manifest parsed e =
     (case parsed of
        Inl err \<Rightarrow> Some (Inl err, e)
      | Inr d \<Rightarrow>
          if typeof (Some d) \<noteq> TObject \<or> isArray (Some d)
          then Some (Inl (Error ''Manifest must be an object!''), e)
          else if d = JNull
          then Some (Inl (TypeError ''Cannot read properties of null''), e)
          else Some (Inr d, e))"

definition assignments ::
  "platform \<Rightarrow> string \<Rightarrow> json \<Rightarrow> State \<Rightarrow> env \<Rightarrow> ((error + State) \<times> env) option"
where
  "assignments pf manifest d st e =
     (case set_templates pf (path_dirname pf manifest) d st of
        Inl err \<Rightarrow> Some (Inl err, e)
      | Inr st1 \<Rightarrow>
          (case set_configTemplate d st1 of
             Inl err \<Rightarrow> Some (Inl err, e)
           | Inr st2 \<Rightarrow> Some (Inr st2, e)))"

text \<open>The \<open>upload\<close> field: nothing to do when it is falsy, an error when it is no array.\<close>

definition upload_items :: "json \<Rightarrow> env \<Rightarrow> ((error + json list) \<times> env) option" where
  "upload_items d e =
     (if truthy (field d ''upload'')
      then (case field d ''upload'' of
              Some (JArr items) \<Rightarrow> Some (Inr items, e)
            | _ \<Rightarrow> Some (Inl (Error ''Upload must be an array!''), e))
      else Some (Inr [], e))"

definition upload_item :: "json \<Rightarrow> env \<Rightarrow> ((error + string) \<times> env) option" where
  "upload_item item e =
     (case item of
        JStr s \<Rightarrow> Some (Inr s, e)
      | _ \<Rightarrow> Some (Inl (Error ''Upload must be a string array!''), e))"

text \<open>
  The loop over the \<open>upload\<close> entries and the part of the \<open>try\<close> block before the
  type is looked at (\<open>templates\<close>, \<open>configTemplate\<close>, \<open>upload\<close>).  \<open>rd\<close> is the
  recursive call of \<open>readManifest\<close>; every child gets the copy \<open>{ ...state }\<close>.
\<close>

type_synonym reader = "State \<Rightarrow> string option \<Rightarrow> string \<Rightarrow> env \<Rightarrow> ((error + unit) \<times> env) option"

primrec upload_loop ::
  "reader \<Rightarrow> platform \<Rightarrow> State \<Rightarrow> string \<Rightarrow> string \<Rightarrow> json list \<Rightarrow> env \<Rightarrow>
   ((error + unit) \<times> env) option"
where
  "upload_loop rd pf st manifest newBase [] e = Some (Inr (), e)"
| "upload_loop rd pf st manifest newBase (item # items) e =
     and_then (upload_item item e) (\<lambda>s e0.
     and_then (rd (fork st) (Some manifest) (path_join pf [newBase, s, ''manifest.json'']) e0)
       (\<lambda>u e1. upload_loop rd pf st manifest newBase items e1))"

definition before_dispatch ::
  "reader \<Rightarrow> platform \<Rightarrow> State \<Rightarrow> string \<Rightarrow> json \<Rightarrow> env \<Rightarrow> ((error + State) \<times> env) option"
where
  "before_dispatch rd pf st manifest d e =
     and_then (assignments pf manifest d st e) (\<lambda>st2 e0.
     and_then (upload_items d e0) (\<lambda>items e1.
     and_then (upload_loop rd pf st2 manifest (path_dirname pf manifest) items e1) (\<lambda>u e2.
     Some (Inr st2, e2))))"

text \<open>
  \<open>readManifest\<close>.  Manifests can refer to each other in a cycle, and then the
  recursion does not end: the first argument bounds the depth of the recursion, and
  \<open>None\<close> says that the bound was reached.
\<close>

primrec readManifest ::
  "nat \<Rightarrow> platform \<Rightarrow> State \<Rightarrow> string option \<Rightarrow> string \<Rightarrow> env \<Rightarrow> ((error + unit) \<times> env) option"
where
  "readManifest 0 pf st parent manifest e = None"
| "readManifest (Suc n) pf st parent manifest e =
     map_option (on_error parent manifest)
       (and_then (check_manifest (parse_file pf manifest) e) (\<lambda>d e0.
        and_then (before_dispatch (readManifest n pf) pf st manifest d e0) (\<lambda>st2 e1.
        Some (dispatch pf st2 manifest d e1))))"

section \<open>The configuration tiers (\<open>defaultsDeep\<close>)\<close>

text \<open>
  \<open>handleLesson\<close> merges the tiers with \<open>defaultsDeep\<close> of lodash.  The definitions
  follow lodash 4.17 (\<open>customDefaultsMerge\<close>, \<open>baseMerge\<close>, \<open>baseMergeDeep\<close>,
  \<open>assignMergeValue\<close>) on the values that \<open>JSON.parse\<close> produces.  In memory an
  array is an object whose keys are indices, and the merge treats it so: \<open>VObj True\<close>
  is an array, \<open>VObj False\<close> a plain object.
\<close>

datatype jsval =
    VNull
  | VBool bool
  | VNum int
  | VStr string
  | VObj bool "(string \<times> jsval) list"

fun of_json :: "json \<Rightarrow> jsval" where
  "of_json JNull = VNull"
| "of_json (JBool b) = VBool b"
| "of_json (JNum i) = VNum i"
| "of_json (JStr s) = VStr s"
| "of_json (JArr xs) = VObj True (zip (map nat_toString [0..<length xs]) (map of_json xs))"
| "of_json (JObj kvs) = VObj False (map (\<lambda>(k, v). (k, of_json v)) kvs)"

text \<open>
  \<open>merge_value ov sv\<close> is the value that the merge leaves at a key where the object
  has \<open>ov\<close> (\<open>None\<close> for \<open>undefined\<close>) and the source has \<open>sv\<close>: two objects (or
  arrays) are merged key by key, a missing value is filled with a copy of the source's,
  and any other value of the object stays.
\<close>

fun merge_value :: "jsval option \<Rightarrow> jsval \<Rightarrow> jsval" where
  "merge_value ov (VObj sarr sprops) =
     (case ov of
        Some (VObj oarr oprops) \<Rightarrow>
          VObj oarr
            (foldl (\<lambda>ob (k, v). obj_set ob k (merge_value (map_of ob k) v)) oprops sprops)
      | Some p \<Rightarrow> p
      | None \<Rightarrow>
          VObj sarr
            (foldl (\<lambda>ob (k, v). obj_set ob k (merge_value (map_of ob k) v)) [] sprops))"
| "merge_value ov sv = (case ov of Some p \<Rightarrow> p | None \<Rightarrow> sv)"

text \<open>
  \<open>baseMerge(object, source)\<close> at the top: the keys of the source are merged into
  the object.  A string as source has its characters as properties; a primitive as
  object is a wrapper that stays what it is.
\<close>

definition source_props :: "jsval \<Rightarrow> (string \<times> jsval) list" where
  "source_props sv =
     (case sv of
        VObj _ props \<Rightarrow> props
      | VStr s \<Rightarrow> zip (map nat_toString [0..<length s]) (map (\<lambda>c. VStr [c]) s)
      | _ \<Rightarrow> [])"

definition baseMerge :: "jsval \<Rightarrow> jsval \<Rightarrow> jsval" where
  "baseMerge object source =
     (case object of
        VObj arr props \<Rightarrow>
          VObj arr
            (foldl (\<lambda>ob (k, v). obj_set ob k (merge_value (map_of ob k) v)) props
               (source_props source))
      | p \<Rightarrow> p)"

definition js_truthy :: "jsval \<Rightarrow> bool" where
  "js_truthy v =
     (case v of
        VNull \<Rightarrow> False
      | VBool b \<Rightarrow> b
      | VNum n \<Rightarrow> n \<noteq> 0
      | VStr s \<Rightarrow> s \<noteq> []
      | VObj _ _ \<Rightarrow> True)"

text \<open>
  \<open>defaultsDeep(object, ...sources)\<close>: \<open>null\<close> as object is a new empty object,
  falsy sources are skipped, the others are merged in from left to right.
\<close>

definition defaultsDeep :: "jsval \<Rightarrow> jsval list \<Rightarrow> jsval" where
  "defaultsDeep object sources =
     foldl (\<lambda>ob src. if js_truthy src then baseMerge ob src else ob)
       (if object = VNull then VObj False [] else object) sources"

text \<open>
  \<open>JSON.stringify\<close>, read back as a JSON value: an array has the elements up to its
  length, \<open>null\<close> where there is none, and its other properties are left out.
\<close>

definition array_length :: "string list \<Rightarrow> nat" where
  "array_length ks = fold (\<lambda>k n. max n (Suc (dec_val k))) (filter is_array_index ks) 0"

definition array_elements :: "(string \<times> json) list \<Rightarrow> json list" where
  "array_elements qs =
     map (\<lambda>i. case map_of qs (nat_toString i) of None \<Rightarrow> JNull | Some v \<Rightarrow> v)
       [0..<array_length (map fst qs)]"

definition enum_order :: "(string \<times> 'a) list \<Rightarrow> (string \<times> 'a) list" where
  "enum_order qs =
     sort_key (\<lambda>kv. dec_val (fst kv)) (filter (\<lambda>kv. is_array_index (fst kv)) qs) @
     filter (\<lambda>kv. \<not> is_array_index (fst kv)) qs"

fun to_json :: "jsval \<Rightarrow> json" where
  "to_json VNull = JNull"
| "to_json (VBool b) = JBool b"
| "to_json (VNum i) = JNum i"
| "to_json (VStr s) = JStr s"
| "to_json (VObj arr props) =
     (if arr then JArr (array_elements (map (\<lambda>(k, v). (k, to_json v)) props))
      else JObj (enum_order (map (\<lambda>(k, v). (k, to_json v)) props)))"

text \<open>
  The configuration that \<open>handleLesson\<close> uploads: \<open>configData\<close>, serialised.  A tier
  is \<open>None\<close> when its file does not exist (or no template is set).  What
  \<open>defaultsDeep\<close> returns is an object, hence truthy, and is uploaded.
\<close>

definition tier :: "json option \<Rightarrow> jsval" where
  "tier c = (case c of None \<Rightarrow> VNull | Some j \<Rightarrow> of_json j)"

definition configData :: "json option \<Rightarrow> json option \<Rightarrow> json option \<Rightarrow> json option" where
  "configData lessonConfig templateConfig configTemplate0 =
     (if truthy lessonConfig \<or> truthy templateConfig \<or> truthy configTemplate0
      then Some (to_json
                   (defaultsDeep (tier lessonConfig) [tier templateConfig, tier configTemplate0]))
      else None)"

section \<open>The desired file set (\<open>handleLesson\<close>, file collection)\<close>

text \<open>
  An entry of a directory walk: the absolute path, whether it is a file, and the path
  relative to the directory walked.
\<close>

record walk_entry =
  entry_path :: string
  entry_is_file :: bool
  entry_rel :: string

definition reserved_names :: "string list" where
  "reserved_names = [''manifest.json'', ''video.cv'', ''config.json'']"

definition ends_with :: "string \<Rightarrow> string \<Rightarrow> bool" where
  "ends_with s suf = (length suf \<le> length s \<and> drop (length s - length suf) s = suf)"

text \<open>
  The image placeholder of a README: \<open>$$IMAGE name$$\<close> or \<open>$$IMAGE name alt$$\<close>.
  \<open>match_image s\<close> matches the regular expression at the start of \<open>s\<close> and returns the
  two groups and the length of the match.  The two character classes exclude each other,
  so the longest runs are the only way to match.
\<close>

definition is_space :: "char \<Rightarrow> bool" where
  "is_space c = ((of_char c :: nat) \<in> {9, 10, 11, 12, 13, 32, 160})"

definition is_name_char :: "char \<Rightarrow> bool" where
  "is_name_char c = (c \<noteq> CHR ''$'' \<and> \<not> is_space c)"

definition match_image :: "string \<Rightarrow> (string \<times> string option \<times> nat) option" where
  "match_image s =
     (if take 7 s \<noteq> ''$$IMAGE'' then None
      else let r0 = drop 7 s;
               ws1 = takeWhile is_space r0; r1 = dropWhile is_space r0;
               name = takeWhile is_name_char r1; r2 = dropWhile is_name_char r1
           in if ws1 = [] \<or> name = [] then None
              else if take 2 r2 = ''$$''
              then Some (name, None, 7 + length ws1 + length name + 2)
              else let ws2 = takeWhile is_space r2; r3 = dropWhile is_space r2;
                       alt = takeWhile is_name_char r3; r4 = dropWhile is_name_char r3
                   in if ws2 \<noteq> [] \<and> alt \<noteq> [] \<and> take 2 r4 = ''$$''
                      then Some (name, Some alt,
                                 7 + length ws1 + length name + length ws2 + length alt + 2)
                      else None)"

fun join_space :: "string list \<Rightarrow> string" where
  "join_space [] = []"
| "join_space [s] = s"
| "join_space (s # t # ss) = s @ '' '' @ join_space (t # ss)"

text \<open>
  The replacement for one placeholder.  \<open>state.images[name]\<close> is a record of the
  table, or, for a name like \<open>constructor\<close>, a member of \<open>Object.prototype\<close>: that
  is truthy and has none of the four fields, so the size is left out and the address
  ends in \<open>undefined.undefined\<close>.
\<close>

definition image_link :: "string option \<Rightarrow> string \<Rightarrow> string \<Rightarrow> string" where
  "image_link alt sizeMetadata url =
     ''!['' @
     join_space (filter (\<lambda>t. t \<noteq> []) [case alt of None \<Rightarrow> [] | Some a \<Rightarrow> a, sizeMetadata]) @
     '']('' @ url @ '')''"

definition render_image ::
  "(string \<times> image_record) list option \<Rightarrow> string \<Rightarrow> string option \<Rightarrow> error + string"
where
  "render_image imgs name alt =
     (case imgs of
        None \<Rightarrow> Inl (Error ''An images folder must be set before images can be used.'')
      | Some table \<Rightarrow>
          (case obj_read table name of
             Undefined \<Rightarrow> Inl (Error (''Could not find image '' @ dq @ name @ dq @ ''.''))
           | Proto k \<Rightarrow>
               Inr (image_link alt []
                      ''https://img.cdn.cratecode.com/userfiles/img/undefined.undefined'')
           | Own r \<Rightarrow>
               (let sizeMetadata =
                      (case (img_width r, img_height r) of
                         (Some w, Some h) \<Rightarrow>
                           if w \<noteq> 0 \<and> h \<noteq> 0
                           then ''{'' @ nat_toString w @ ''x'' @ nat_toString h @ ''}''
                           else []
                       | _ \<Rightarrow> []);
                    url = ''https://img.cdn.cratecode.com/userfiles/img/'' @ img_id r @ ''.'' @
                          img_format r
                in Inr (image_link alt sizeMetadata url))))"

text \<open>
  The global replace.  The second argument counts the characters still covered by the
  last match; the search goes on behind it.
\<close>

fun replace_images ::
  "(string \<times> image_record) list option \<Rightarrow> nat \<Rightarrow> string \<Rightarrow> error + string"
where
  "replace_images imgs k [] = Inr []"
| "replace_images imgs (Suc k) (c # cs) = replace_images imgs k cs"
| "replace_images imgs 0 (c # cs) =
     (case match_image (c # cs) of
        None \<Rightarrow>
          (case replace_images imgs 0 cs of Inl err \<Rightarrow> Inl err | Inr rest \<Rightarrow> Inr (c # rest))
      | Some (name, alt, len) \<Rightarrow>
          (case render_image imgs name alt of
             Inl err \<Rightarrow> Inl err
           | Inr t \<Rightarrow>
               (case replace_images imgs (len - 1) cs of
                  Inl err \<Rightarrow> Inl err
                | Inr rest \<Rightarrow> Inr (t @ rest))))"

text \<open>
  The loop over the walk entries.  \<open>rd\<close> is the text of the file at an absolute path
  (\<open>fs.promises.readFile(path, "utf-8")\<close>).  \<open>files[entry[2]] = ...\<close> is an
  assignment to a plain object, and \<open>files[entry[2]].replace(...)\<close> reads it back:
  for the relative path \<open>__proto__\<close> nothing is stored, and what is read back is
  \<open>Object.prototype\<close>, which has no \<open>replace\<close>.
\<close>

fun collect_loop ::
  "(string \<Rightarrow> string) \<Rightarrow> (string \<times> image_record) list option \<Rightarrow> walk_entry list \<Rightarrow> obj \<Rightarrow>
   error + obj"
where
  "collect_loop rd imgs [] files = Inr files"
| "collect_loop rd imgs (entry # entries) files =
     (if \<not> entry_is_file entry then collect_loop rd imgs entries files
      else if entry_rel entry \<in> set reserved_names then collect_loop rd imgs entries files
      else let files1 = obj_assign files (entry_rel entry) (rd (entry_path entry))
           in if ends_with (entry_path entry) ''/README.md''
              then (case obj_read files1 (entry_rel entry) of
                      Own s \<Rightarrow>
                        (case replace_images imgs 0 s of
                           Inl err \<Rightarrow> Inl err
                         | Inr t \<Rightarrow>
                             collect_loop rd imgs entries (obj_assign files1 (entry_rel entry) t))
                    | Proto k \<Rightarrow> Inl (TypeError ''files[entry[2]].replace is not a function'')
                    | Undefined \<Rightarrow> Inl (TypeError ''Cannot read properties of undefined''))
              else collect_loop rd imgs entries files1)"

text \<open>
  The file set of a lesson: the walk of the lesson directory, with the walk of the
  template directory put in front of it when there is one.
\<close>

definition collect_files ::
  "(string \<Rightarrow> string) \<Rightarrow> (string \<times> image_record) list option \<Rightarrow> walk_entry list \<Rightarrow>
   walk_entry list option \<Rightarrow> error + obj"
where
  "collect_files rd imgs lesson_walk template_walk =
     collect_loop rd imgs
       ((case template_walk of None \<Rightarrow> [] | Some entries \<Rightarrow> entries) @ lesson_walk) []"

text \<open>\<open>templateDir\<close> of \<open>handleLesson\<close>.\<close>

definition templateDir :: "platform \<Rightarrow> State \<Rightarrow> string option \<Rightarrow> string option" where
  "templateDir pf st extendsTemplate =
     (case (extendsTemplate, templates st) of
        (Some x, Some t) \<Rightarrow> if x \<noteq> [] \<and> t \<noteq> [] then Some (path_join pf [t, x]) else None
      | _ \<Rightarrow> None)"

section \<open>Functions used to state the properties\<close>

text \<open>
  The second loop of a \<open>Files\<close> round on the object alone: what it leaves of the
  object, and the paths it removes, in order.
\<close>

fun pruned :: "obj \<Rightarrow> remote_file list \<Rightarrow> obj" where
  "pruned files [] = files"
| "pruned files (f # fs) =
     pruned (if same_as_remote files f then obj_delete files (path f) else files) fs"

fun pruned_paths :: "obj \<Rightarrow> remote_file list \<Rightarrow> string list" where
  "pruned_paths files [] = []"
| "pruned_paths files (f # fs) =
     (if same_as_remote files f then path f # pruned_paths (obj_delete files (path f)) fs
      else pruned_paths files fs)"

text \<open>
  For the sessions of a run in general.  A world is well formed when its timers, its
  promise chains and its trace name existing sessions only and no promise is rejected;
  the worlds of a run are (\<open>well_formed_run_events\<close> below).  \<open>calm sid T\<close> is an
  entry of a schedule that arrives by time \<open>T\<close>, is a message that decodes, and on the
  socket of session \<open>sid\<close> is a quiet frame.  \<open>timeout_resolved sid\<close> says that the trace
  holds the timeout warning directly followed by the call of \<open>resolve\<close> of the session.
\<close>

fun cb_session :: "timer_cb \<Rightarrow> nat" where
  "cb_session (RetryUpload s) = s"
| "cb_session (CloseSocket s) = s"
| "cb_session (TimeoutGuard s) = s"

fun event_known :: "nat \<Rightarrow> event \<Rightarrow> bool" where
  "event_known n (WsOpen s url) = (s < n)"
| "event_known n (WsSend s m) = (s < n)"
| "event_known n (WsClose s) = (s < n)"
| "event_known n (Resolve s) = (s < n)"
| "event_known n (PropDeleted r k) = True"
| "event_known n (ConsoleWarn t) = True"

definition well_formed :: "world \<Rightarrow> bool" where
  "well_formed w =
     (list_all (\<lambda>x. cb_session (snd x) < length (sessions w)) (timers w) \<and>
      list_all (\<lambda>s. list_all (\<lambda>c. c < length (sessions w)) (then_chain s)) (sessions w) \<and>
      list_all (\<lambda>s. outcome s \<noteq> Rejected) (sessions w) \<and>
      list_all (event_known (length (sessions w))) (trace w))"





text \<open>
  Worlds and schedules of the examples.  \<open>idle files\<close> is the process before the
  first call of \<open>uploadFiles\<close>, which makes \<open>start\<close> of it.  \<open>retry_world\<close> is the
  world in which the retry timer of the first session runs, one second after a
  \<open>NotInitialized\<close> at time 0: the retry is the call
  \<open>uploadFiles ''t'' 1 [0] retry_world\<close>.  \<open>retry_schedule\<close> brings the retry
  \<open>Initialized\<close> and a \<open>Files\<close> message without a payload, and the first
  socket a second \<open>NotInitialized\<close>.  In \<open>late_signal_run\<close> the signal arrives 9 seconds after the
  start of the session and the world is looked at after 15 seconds; in
  \<open>socket_error_run\<close> the socket raises an error after 100 milliseconds and the world
  is looked at after a minute; in \<open>listing_after_payloadless_run\<close> a listing follows
  a \<open>Files\<close> message without a payload.
\<close>

definition idle :: "obj \<Rightarrow> world" where
  "idle files =
     \<lparr>clock = 0, heap = (\<lambda>_. [])(0 := files), next_ref = 1, sessions = [], timers = [],
      trace = [], crashed = False\<rparr>"

definition retry_world :: world where
  "retry_world =
     (on_message 0 (BinaryFrame NotInitialized None) (start ''t'' [(''a'', ''1'')]))
       \<lparr>clock := 1000, timers := [(10000, TimeoutGuard 0)]\<rparr>"




definition socket_error_run :: world where
  "socket_error_run = advance 60000 (run_events [(100, 0, SocketError)] (start ''t'' []))"


text \<open>
  The run in which the socket of the first session delivers \<open>NotInitialized\<close> twice,
  half a second apart; the desired set is one empty file \<open>a\<close>, and the container
  lists \<open>a\<close> with empty data.
\<close>

definition double_signal_run :: world where
  "double_signal_run =
     exec [(0, 0, BinaryFrame NotInitialized None),
           (500, 0, BinaryFrame NotInitialized None),
           (1100, 1, BinaryFrame Initialized None),
           (1200, 1, BinaryFrame Files (Some [\<lparr>path = ''a'', data = Some []\<rparr>])),
           (1600, 2, BinaryFrame Initialized None),
           (1700, 2, BinaryFrame Files (Some [\<lparr>path = ''a'', data = Some []\<rparr>]))]
       (start ''t'' [(''a'', [])])"

text \<open>
  The first step of \<open>handleLesson\<close>: the identifier and the unit are resolved with
  \<open>mapID\<close>, in that order.
\<close>

definition lesson_ids ::
  "(string \<Rightarrow> id_response) \<Rightarrow> State \<Rightarrow> string \<Rightarrow> string option \<Rightarrow> env \<Rightarrow>
   (error + id_value option \<times> id_value option) \<times> env"
where
  "lesson_ids net st i unit e =
     (case mapID net (Some i) st e of
        (Inl err, e1) \<Rightarrow> (Inl err, e1)
      | (Inr actualID, e1) \<Rightarrow>
          (case mapID net unit st e1 of
             (Inl err, e2) \<Rightarrow> (Inl err, e2)
           | (Inr actualUnitID, e2) \<Rightarrow> (Inr (actualID, actualUnitID), e2)))"

text \<open>
  A small course: the root manifest uploads the lessons \<open>a\<close> and \<open>b\<close>, which are
  siblings and name the same unit \<open>basics\<close>.  Every name is known to the server.  The
  lesson handler of this platform stops after the first step of \<open>handleLesson\<close>.
\<close>

definition course_files :: "string \<Rightarrow> error + json" where
  "course_files p =
     (if p = ''manifest.json'' then Inr (JObj [(''upload'', JArr [JStr ''a'', JStr ''b''])])
      else if p = ''a/manifest.json''
      then Inr (JObj [(''type'', JStr ''lesson''), (''id'', JStr ''first''), (''name'', JStr ''First''),
                      (''unit'', JStr ''basics''), (''spec'', JNull), (''class'', JNull)])
      else if p = ''b/manifest.json''
      then Inr (JObj [(''type'', JStr ''lesson''), (''id'', JStr ''second''), (''name'', JStr ''Second''),
                      (''unit'', JStr ''basics''), (''spec'', JNull), (''class'', JNull)])
      else Inl (Error ''ENOENT''))"

definition course_server :: "string \<Rightarrow> id_response" where
  "course_server name = IdFound (''id-of-'' @ name)"

definition course_platform :: platform where
  "course_platform =
     \<lparr>parse_file = course_files,
      path_dirname = (\<lambda>p. take (length p - 14) p),
      path_join = (\<lambda>ps. concat (map (\<lambda>p. if p = [] then [] else p @ ''/'') (butlast ps)) @ last ps),
      handleUnit = (\<lambda>st i nm lessons e. (Inr i, e)),
      handleLesson = (\<lambda>st i nm unit spec ext cls dir e.
         case lesson_ids course_server st i unit e of
           (Inl err, e1) \<Rightarrow> (Inl err, e1)
         | (Inr ids, e1) \<Rightarrow> (Inr i, e1))\<rparr>"

definition course_run :: "((error + unit) \<times> env) option" where
  "course_run =
     readManifest 2 course_platform (fst (upload_state ''key'')) None ''manifest.json''
       (snd (upload_state ''key''))"

text \<open>
  The same course with a root manifest of the unknown type \<open>quiz\<close>; and the outcome
  of a run as far as it can be compared: the result, the requests and the console.
\<close>

definition quiz_course :: platform where
  "quiz_course =
     course_platform\<lparr>parse_file :=
       (\<lambda>p. if p = ''manifest.json''
            then Inr (JObj [(''upload'', JArr [JStr ''a'', JStr ''b'']), (''type'', JStr ''quiz'')])
            else course_files p)\<rparr>"

definition outcome_of ::
  "((error + unit) \<times> env) option \<Rightarrow> ((error + unit) \<times> string list \<times> string list) option"
where
  "outcome_of = map_option (\<lambda>r. (fst r, requests (snd r), console (snd r)))"

text \<open>
  The recursion into the upload children, as the specification has it: the children are
  read in the order of the list, each with its own copy of the state, and the first
  error ends the loop.  \<open>rd\<close> is the reader of a child.
\<close>

fun read_children ::
  "reader \<Rightarrow> platform \<Rightarrow> State \<Rightarrow> string \<Rightarrow> string list \<Rightarrow> env \<Rightarrow> ((error + unit) \<times> env) option"
where
  "read_children rd pf st manifest [] e = Some (Inr (), e)"
| "read_children rd pf st manifest (name # names) e =
     (case rd (fork st) (Some manifest)
             (path_join pf [path_dirname pf manifest, name, ''manifest.json'']) e of
        None \<Rightarrow> None
      | Some (Inl err, e1) \<Rightarrow> Some (Inl err, e1)
      | Some (Inr u, e1) \<Rightarrow> read_children rd pf st manifest names e1)"

text \<open>A platform on which every manifest file has the same content.\<close>

definition single_manifest :: "json \<Rightarrow> platform" where
  "single_manifest d = course_platform\<lparr>parse_file := (\<lambda>p. Inr d)\<rparr>"

text \<open>
  The files of one walked directory as a map from relative path to text: an entry
  counts when it is a file and its relative path is not reserved; of several entries
  with one relative path the last counts.  \<open>raw_files\<close> gives the text of the file;
  \<open>dir_files\<close> gives, for a file whose absolute path ends in \<open>/README.md\<close>, the text
  after the image pass.  \<open>no_proto\<close> says that an object has no own property
  \<open>__proto__\<close>.
\<close>

definition is_listed :: "walk_entry \<Rightarrow> bool" where
  "is_listed entry = (entry_is_file entry \<and> entry_rel entry \<notin> set reserved_names)"

definition loaded_text ::
  "(string \<Rightarrow> string) \<Rightarrow> (string \<times> image_record) list option \<Rightarrow> walk_entry \<Rightarrow> error + string"
where
  "loaded_text rd imgs entry =
     (if ends_with (entry_path entry) ''/README.md''
      then replace_images imgs 0 (rd (entry_path entry))
      else Inr (rd (entry_path entry)))"

fun last_listed :: "walk_entry list \<Rightarrow> string \<Rightarrow> walk_entry option" where
  "last_listed [] p = None"
| "last_listed (entry # entries) p =
     (case last_listed entries p of
        Some x \<Rightarrow> Some x
      | None \<Rightarrow> if is_listed entry \<and> entry_rel entry = p then Some entry else None)"

definition dir_files ::
  "(string \<Rightarrow> string) \<Rightarrow> (string \<times> image_record) list option \<Rightarrow> walk_entry list \<Rightarrow>
   string \<Rightarrow> string option"
where
  "dir_files rd imgs entries p =
     (case last_listed entries p of
        None \<Rightarrow> None
      | Some entry \<Rightarrow>
          (case loaded_text rd imgs entry of Inl err \<Rightarrow> None | Inr t \<Rightarrow> Some t))"

definition raw_files :: "(string \<Rightarrow> string) \<Rightarrow> walk_entry list \<Rightarrow> string \<Rightarrow> string option" where
  "raw_files rd entries p = map_option (\<lambda>entry. rd (entry_path entry)) (last_listed entries p)"

definition no_proto :: "obj \<Rightarrow> bool" where
  "no_proto ob = (map_of ob ''__proto__'' = None)"

definition walk_of :: "walk_entry list option \<Rightarrow> walk_entry list" where
  "walk_of template_walk = (case template_walk of None \<Rightarrow> [] | Some entries \<Rightarrow> entries)"

text \<open>
  Examples: the template and lesson directories of the specification's overlay example;
  a lesson whose README shows the image \<open>cat\<close>; and a lesson directory that holds the
  files \<open>__proto__\<close> and \<open>a\<close>.
\<close>

definition proto_texts :: "string \<Rightarrow> string" where
  "proto_texts p = (if p = ''/l/__proto__'' then ''x'' else ''1'')"

definition proto_lesson :: "walk_entry list" where
  "proto_lesson =
     [\<lparr>entry_path = ''/l'', entry_is_file = False, entry_rel = []\<rparr>,
      \<lparr>entry_path = ''/l/__proto__'', entry_is_file = True, entry_rel = ''__proto__''\<rparr>,
      \<lparr>entry_path = ''/l/a'', entry_is_file = True, entry_rel = ''a''\<rparr>]"

definition overlay_texts :: "string \<Rightarrow> string" where
  "overlay_texts p =
     (if p = ''/t/a'' then ''1'' else if p = ''/t/b'' then ''2''
      else if p = ''/l/b'' then ''3'' else if p = ''/l/c'' then ''4'' else ''{}'')"

definition overlay_template :: "walk_entry list" where
  "overlay_template =
     [\<lparr>entry_path = ''/t'', entry_is_file = False, entry_rel = []\<rparr>,
      \<lparr>entry_path = ''/t/a'', entry_is_file = True, entry_rel = ''a''\<rparr>,
      \<lparr>entry_path = ''/t/b'', entry_is_file = True, entry_rel = ''b''\<rparr>,
      \<lparr>entry_path = ''/t/config.json'', entry_is_file = True, entry_rel = ''config.json''\<rparr>]"

definition overlay_lesson :: "walk_entry list" where
  "overlay_lesson =
     [\<lparr>entry_path = ''/l'', entry_is_file = False, entry_rel = []\<rparr>,
      \<lparr>entry_path = ''/l/b'', entry_is_file = True, entry_rel = ''b''\<rparr>,
      \<lparr>entry_path = ''/l/c'', entry_is_file = True, entry_rel = ''c''\<rparr>,
      \<lparr>entry_path = ''/l/manifest.json'', entry_is_file = True, entry_rel = ''manifest.json''\<rparr>]"

definition cat_images :: "(string \<times> image_record) list option" where
  "cat_images =
     Some [(''cat'', \<lparr>img_id = ''c1'', img_format = ''png'', img_width = Some 640,
                       img_height = Some 480\<rparr>)]"

definition readme_lesson :: "walk_entry list" where
  "readme_lesson =
     [\<lparr>entry_path = ''/l/README.md'', entry_is_file = True, entry_rel = ''README.md''\<rparr>]"

definition readme_text :: "string \<Rightarrow> string" where
  "readme_text p = ''See $$IMAGE cat$$.''"

text \<open>
  For the retry: the timers that start a retry, the frames that are a
  \<open>NotInitialized\<close> signal, the object references of the sessions, and the three stages
  of a run in which the signal arrives at most once (no signal yet; signal received and
  retry pending; retry started).
\<close>

definition is_retry :: "nat \<times> timer_cb \<Rightarrow> bool" where
  "is_retry x = (case snd x of RetryUpload _ \<Rightarrow> True | _ \<Rightarrow> False)"

definition is_signal :: "frame \<Rightarrow> bool" where
  "is_signal fr = (case fr of BinaryFrame NotInitialized _ \<Rightarrow> True | _ \<Rightarrow> False)"

definition refs :: "world \<Rightarrow> (nat \<times> nat) list" where
  "refs w = map (\<lambda>s. (files_ref s, backup_ref s)) (sessions w)"

definition before_signal :: "obj \<Rightarrow> world \<Rightarrow> bool" where
  "before_signal files w =
     (refs w = [(0, 1)] \<and> heap w 1 = files \<and> next_ref w = 2 \<and> filter is_retry (timers w) = [])"

definition retry_pending :: "obj \<Rightarrow> world \<Rightarrow> bool" where
  "retry_pending files w =
     (refs w = [(0, 1)] \<and> heap w 1 = files \<and> next_ref w = 2 \<and>
      length (filter is_retry (timers w)) = 1 \<and>
      list_all (\<lambda>x. is_retry x \<longrightarrow> snd x = RetryUpload 0) (timers w))"

definition retry_started :: "obj \<Rightarrow> world \<Rightarrow> bool" where
  "retry_started files w =
     (refs w = [(0, 1), (1, 2)] \<and> heap w 2 = files \<and> next_ref w = 3 \<and>
      filter is_retry (timers w) = [])"

section \<open>Properties of the container protocol\<close>

subsection \<open>The three loops of a \<open>Files\<close> round\<close>

lemma delete_loop_trace:
  "trace (delete_loop sid items fs w) =
     trace w @ map (\<lambda>p. WsSend sid (DeleteFile p)) (filter (\<lambda>p. p \<notin> set items) (map path fs))"
  by (induction fs arbitrary: w) (simp_all add: ws_send_def emit_def)

lemma delete_loop_rest:
  "heap (delete_loop sid items fs w) = heap w"
  "sessions (delete_loop sid items fs w) = sessions w"
  "timers (delete_loop sid items fs w) = timers w"
  "clock (delete_loop sid items fs w) = clock w"
  "next_ref (delete_loop sid items fs w) = next_ref w"
  by (induction fs arbitrary: w; simp add: ws_send_def emit_def)+

lemma prune_loop_trace:
  "trace (prune_loop r fs w) = trace w @ map (PropDeleted r) (pruned_paths (heap w r) fs)"
  by (induction fs arbitrary: w) (simp_all add: delete_prop_def emit_def)

lemma prune_loop_heap:
  "heap (prune_loop r fs w) = (heap w)(r := pruned (heap w r) fs)"
  by (induction fs arbitrary: w) (simp_all add: delete_prop_def emit_def)

lemma prune_loop_rest:
  "sessions (prune_loop r fs w) = sessions w"
  "timers (prune_loop r fs w) = timers w"
  "clock (prune_loop r fs w) = clock w"
  "next_ref (prune_loop r fs w) = next_ref w"
  by (induction fs arbitrary: w; simp add: delete_prop_def emit_def)+

lemma write_loop_rest:
  "heap (write_loop sid r ks w) = heap w"
  "sessions (write_loop sid r ks w) = sessions w"
  "timers (write_loop sid r ks w) = timers w"
  "clock (write_loop sid r ks w) = clock w"
  "next_ref (write_loop sid r ks w) = next_ref w"
  by (induction ks arbitrary: w; simp add: ws_send_def emit_def)+

lemma write_loop_trace:
  "trace (write_loop sid r ks w) =
     trace w @ map (\<lambda>k. WsSend sid (SetFile k (text_encode (prop_text (heap w r) k)))) ks"
proof (induction ks arbitrary: w)
  case Nil
  show ?case by simp
next
  case (Cons k ks)
  have "heap (ws_send sid (SetFile k (text_encode (prop_text (heap w r) k))) w) = heap w"
    by (simp add: ws_send_def emit_def)
  with Cons show ?case
    by (simp add: ws_send_def emit_def)
qed

lemma on_files_trace:
  "trace (on_files sid listing w) =
     trace w @
     map (\<lambda>p. WsSend sid (DeleteFile p))
       (filter (\<lambda>p. p \<notin> set (obj_keys (heap w (files_ref (sessions w ! sid)))))
          (map path listing)) @
     map (PropDeleted (files_ref (sessions w ! sid)))
       (pruned_paths (heap w (files_ref (sessions w ! sid))) listing) @
     map (\<lambda>k. WsSend sid
            (SetFile k (text_encode
               (prop_text (pruned (heap w (files_ref (sessions w ! sid))) listing) k))))
       (obj_keys (pruned (heap w (files_ref (sessions w ! sid))) listing)) @
     [Resolve sid]"
  by (simp add: on_files_def Let_def resolve_def emit_def set_finished_def
      set_timeout_def write_loop_trace write_loop_rest prune_loop_trace prune_loop_heap
      prune_loop_rest delete_loop_trace delete_loop_rest)

lemma on_files_heap:
  "heap (on_files sid listing w) =
     (heap w)(files_ref (sessions w ! sid) :=
                pruned (heap w (files_ref (sessions w ! sid))) listing)"
  by (simp add: on_files_def Let_def resolve_def emit_def set_finished_def
      set_timeout_def write_loop_rest prune_loop_heap delete_loop_rest)

lemma set_key_order: "set (key_order ks) = set ks"
  by (auto simp: key_order_def)

lemma set_obj_keys: "set (obj_keys ob) = fst ` set ob"
  by (simp add: obj_keys_def set_key_order)

lemma keys_obj_delete: "fst ` set (obj_delete ob k) = fst ` set ob - {k}"
  by (auto simp: obj_delete_def)

lemma keys_pruned:
  "fst ` set (pruned files fs) = fst ` set files - set (pruned_paths files fs)"
  by (induction fs arbitrary: files) (auto simp: keys_obj_delete)

lemmas protocol_eval =
  start_def uploadFiles_def Let_def emit_def set_timeout_def control_url_def
  obj_keys_def key_order_def is_array_index_def is_digit_def dec_val_def
  same_as_remote_def obj_read_def object_prototype_keys_def obj_get_def
  uint8array_toString_def byte_toString_def digit_char_def
  text_encode_def encode_unit_def obj_delete_def prop_text_def

subsection \<open>\<open>toString\<close> of a byte array is no decoder\<close>

lemma length_join_comma:
  "xs \<noteq> [] \<Longrightarrow> Suc (length (join_comma xs)) = sum_list (map length xs) + length xs"
  by (induction xs rule: join_comma.induct) simp_all

lemma byte_toString_nonempty: "1 \<le> length (byte_toString b)"
  by (simp add: byte_toString_def Let_def)

lemma sum_length_byte_toString: "length bs \<le> sum_list (map length (map byte_toString bs))"
proof (induction bs)
  case Nil
  show ?case by simp
next
  case (Cons b bs)
  with byte_toString_nonempty [of b] show ?case by simp
qed

lemma length_uint8array_toString:
  assumes "bs \<noteq> []"
  shows "2 * length bs \<le> Suc (length (uint8array_toString bs))"
proof -
  from assms have "map byte_toString bs \<noteq> []" by simp
  from length_join_comma [OF this] sum_length_byte_toString [of bs]
  show ?thesis by (simp add: uint8array_toString_def)
qed

lemma length_encode_unit: "1 \<le> length (encode_unit c)"
  by (simp add: encode_unit_def Let_def)

lemma length_text_encode: "length t \<le> length (text_encode t)"
proof (induction t)
  case Nil
  show ?case by (simp add: text_encode_def)
next
  case (Cons c t)
  with length_encode_unit [of c] show ?case by (simp add: text_encode_def)
qed

lemma single_byte_differs:
  assumes "n < 128"
  shows "byte_toString (word_of_nat n :: 8 word) \<noteq> [char_of n]"
proof
  assume eq: "byte_toString (word_of_nat n :: 8 word) = [char_of n]"
  from assms have u: "unat (word_of_nat n :: 8 word) = n"
    by (simp add: unat_of_nat)
  from eq u have small: "n < 10"
    by (auto simp: byte_toString_def Let_def split: if_splits)
  with eq u have "char_of (48 + n) = (char_of n :: char)"
    by (simp add: byte_toString_def Let_def digit_char_def)
  then have "of_char (char_of (48 + n) :: char) = (of_char (char_of n :: char) :: nat)"
    by simp
  with small show False by simp
qed

text \<open>
  The printed form of the bytes of a non-empty text is never that text: it is longer,
  or, for a single byte, a digit that is not the character.
\<close>

lemma toString_is_no_decoder:
  assumes "t \<noteq> []"
  shows "uint8array_toString (text_encode t) \<noteq> t"
proof (cases "length (text_encode t) = 1")
  case True
  with length_text_encode [of t] assms have "length t = 1"
    by (cases t) auto
  then obtain c where t: "t = [c]"
    by (cases t) auto
  with True have one: "length (encode_unit c) = 1"
    by (simp add: text_encode_def)
  then have lt: "(of_char c :: nat) < 128"
    by (auto simp: encode_unit_def Let_def split: if_splits)
  with single_byte_differs [OF lt] show ?thesis
    by (simp add: t text_encode_def encode_unit_def Let_def uint8array_toString_def)
next
  case False
  from assms length_text_encode [of t] have ne: "text_encode t \<noteq> []"
    by (cases t) auto
  then have "0 < length (text_encode t)" by simp
  with False have "2 \<le> length (text_encode t)" by linarith
  with length_uint8array_toString [OF ne] length_text_encode [of t]
  have "length t < length (uint8array_toString (text_encode t))"
    by linarith
  then show ?thesis by auto
qed

text \<open>
  So a desired file with the same non-empty content as the remote file is not taken
  out of the working set by the second loop.
\<close>

lemma identical_content_not_same_as_remote:
  assumes "obj_get files (path f) = Some t" and "t \<noteq> []" and "data f = Some (text_encode t)"
  shows "\<not> same_as_remote files f"
  using assms toString_is_no_decoder [of t]
  by (auto simp: same_as_remote_def obj_read_def obj_get_def)

text \<open>
  And a listed path that names a member of \<open>Object.prototype\<close> and has no data is
  not taken for a path that both sides lack: nothing is deleted.
\<close>

lemma inherited_name_is_not_pruned:
  assumes "map_of files ''constructor'' = None"
  shows "\<not> same_as_remote files \<lparr>path = ''constructor'', data = None\<rparr>"
  using assms by (simp add: same_as_remote_def obj_read_def object_prototype_keys_def)

subsection \<open>Claims about one round\<close>

text \<open>
  Claim C1 (the example of the specification).  With the remote listing
  \<open>{x: "old", y: "same"}\<close> and the desired set \<open>{y: "same", z: "new"}\<close> the claim
  expects one \<open>DeleteFile\<close> for \<open>x\<close>, one \<open>SetFile\<close> for \<open>z\<close> and nothing for \<open>y\<close>.
  The handler compares the desired text with \<open>file.data?.toString()\<close>, which for the
  bytes of \<open>same\<close> is \<open>115,97,109,101\<close>; \<open>y\<close> stays in the working set and is
  written again.  What is sent on the socket is:
\<close>

theorem sync_example_resends_unchanged:
  "sent_on 0 (trace (on_message 0
      (BinaryFrame Files (Some [\<lparr>path = ''x'', data = Some (text_encode ''old'')\<rparr>,
                                \<lparr>path = ''y'', data = Some (text_encode ''same'')\<rparr>]))
      (start ''t'' [(''y'', ''same''), (''z'', ''new'')]))) =
   [DeleteFile ''x'', SetFile ''y'' (text_encode ''same''), SetFile ''z'' (text_encode ''new'')]"
proof -
  let ?w = "start ''t'' [(''y'', ''same''), (''z'', ''new'')]"
  have s: "length (sessions ?w) = 1" "files_ref (sessions ?w ! 0) = 0"
    "heap ?w 0 = [(''y'', ''same''), (''z'', ''new'')]" "trace ?w = [WsOpen 0 (control_url ''t'')]"
    by (simp_all add: start_def uploadFiles_def Let_def emit_def set_timeout_def)
  show ?thesis
    by (simp add: on_message_def on_files_trace s protocol_eval)
qed

text \<open>
  Claim C5.  In the round that a \<open>Files\<close> message with a listing starts, the trace
  grows by: the \<open>DeleteFile\<close> messages for the listed paths that are no key of the
  desired set as it was at the start of the round; then the removals from the working
  set; then one \<open>SetFile\<close> for every key that is left, and nothing else but the call of
  \<open>resolve\<close>.  The keys that are left are the keys of the desired set without the
  removed paths.
\<close>

theorem files_round_order:
  assumes "sid < length (sessions w)"
  shows "let r = files_ref (sessions w ! sid);
             files = heap w r;
             files' = pruned files listing;
             w' = on_message sid (BinaryFrame Files (Some listing)) w
         in trace w' =
              trace w @
              map (\<lambda>p. WsSend sid (DeleteFile p))
                (filter (\<lambda>p. p \<notin> set (obj_keys files)) (map path listing)) @
              map (PropDeleted r) (pruned_paths files listing) @
              map (\<lambda>k. WsSend sid (SetFile k (text_encode (prop_text files' k))))
                (obj_keys files') @
              [Resolve sid] \<and>
            heap w' r = files' \<and>
            set (obj_keys files') = set (obj_keys files) - set (pruned_paths files listing)"
  using assms
  by (simp add: Let_def on_message_def on_files_trace on_files_heap set_obj_keys keys_pruned)

theorem files_round_order_witness:
  "0 < length (sessions (start ''t'' [(''a'', ''''), (''z'', ''new'')])) \<and>
   trace (on_message 0
      (BinaryFrame Files (Some [\<lparr>path = ''x'', data = Some (text_encode ''old'')\<rparr>,
                                \<lparr>path = ''a'', data = Some []\<rparr>]))
      (start ''t'' [(''a'', ''''), (''z'', ''new'')])) =
   [WsOpen 0 ''wss://cratecode.com/control/t'', WsSend 0 (DeleteFile ''x''),
    PropDeleted 0 ''a'', WsSend 0 (SetFile ''z'' [110, 101, 119]), Resolve 0]"
proof -
  let ?w = "start ''t'' [(''a'', ''''), (''z'', ''new'')]"
  have s: "length (sessions ?w) = 1" "files_ref (sessions ?w ! 0) = 0"
    "heap ?w 0 = [(''a'', ''''), (''z'', ''new'')]"
    "trace ?w = [WsOpen 0 ''wss://cratecode.com/control/t'']"
    by (simp_all add: start_def uploadFiles_def Let_def emit_def set_timeout_def control_url_def)
  from s have "0 < length (sessions ?w)" by simp
  from files_round_order [OF this, of "[\<lparr>path = ''x'', data = Some (text_encode ''old'')\<rparr>,
                                \<lparr>path = ''a'', data = Some []\<rparr>]"] s
  show ?thesis
    by (simp add: protocol_eval)
qed

subsection \<open>Timers\<close>

lemma run_timers_none:
  "timers w = [] \<Longrightarrow> run_timers t w = w\<lparr>clock := max (clock w) t\<rparr>"
  by (subst run_timers.simps) simp

lemma run_timers_twice: "run_timers t2 (run_timers t1 w) = run_timers (max t1 t2) w"
proof (induction t1 w arbitrary: t2 rule: run_timers.induct)
  case (1 t w)
  show ?case
  proof (cases "next_due (timers w)")
    case None
    then show ?thesis
      by (simp add: run_timers.simps [of t w] run_timers.simps [of "max t t2" w]
          run_timers.simps [of t2 "w\<lparr>clock := max (clock w) t\<rparr>"] max.assoc)
  next
    case (Some x)
    show ?thesis
    proof (cases "t < fst x")
      case True
      with Some show ?thesis
        by (simp add: run_timers.simps [of t w] run_timers.simps [of "max t t2" w]
            run_timers.simps [of t2 "w\<lparr>clock := max (clock w) t\<rparr>"] max.assoc)
    next
      case False
      with Some "1.IH" [OF Some False, of t2] show ?thesis
        by (simp add: run_timers.simps [of t w] run_timers.simps [of "max t t2" w])
    qed
  qed
qed

subsection \<open>The retry after \<open>NotInitialized\<close>\<close>

text \<open>
  What the handler does on \<open>NotInitialized\<close>: a warning, \<open>finished\<close>, the close of
  the socket, and one timer that fires a second later.
\<close>

lemma not_initialized_effect:
  assumes "sid < length (sessions w)"
  shows "trace (on_message sid (BinaryFrame NotInitialized v) w) =
           trace w @ [ConsoleWarn ''Received NotInitialized, retrying...'', WsClose sid]"
    and "timers (on_message sid (BinaryFrame NotInitialized v) w) =
           timers w @ [(clock w + 1000, RetryUpload sid)]"
    and "heap (on_message sid (BinaryFrame NotInitialized v) w) = heap w"
    and "finished (sessions (on_message sid (BinaryFrame NotInitialized v) w) ! sid)"
  using assms
  by (simp_all add: on_message_def on_not_initialized_def Let_def emit_def set_finished_def
      set_timeout_def)

text \<open>
  The retry is a new session on the object \<open>filesBackup\<close> of the old one, of which
  it takes its own copy.
\<close>

lemma retry_starts_from_backup:
  "sessions (fire (RetryUpload sid) w) =
     sessions w @
     [\<lparr>token = token (sessions w ! sid), files_ref = backup_ref (sessions w ! sid),
       backup_ref = next_ref w, finished = False, then_chain = sid # then_chain (sessions w ! sid),
       outcome = Pending\<rparr>]"
  "heap (fire (RetryUpload sid) w) =
     (heap w)(next_ref w := heap w (backup_ref (sessions w ! sid)))"
  by (simp_all add: fire_def uploadFiles_def Let_def emit_def set_timeout_def)

text \<open>A handler changes no object but the \<open>files\<close> of its own session.\<close>

lemma on_message_other_objects:
  assumes "r \<noteq> files_ref (sessions w ! sid)"
  shows "heap (on_message sid fr w) r = heap w r"
  using assms
  by (simp add: on_message_def on_not_initialized_def Let_def emit_def set_finished_def
      set_timeout_def ws_send_def on_files_heap
      split: frame.splits out_type.splits option.splits)

text \<open>
  The stages are kept by every handler and every timer, so a run with at most one
  signal never leaves them.
\<close>

lemma map_update_same:
  assumes "\<And>x. f (g x) = f x"
  shows "map f (xs[i := g (xs ! i)]) = map f xs"
proof (induction xs arbitrary: i)
  case Nil
  show ?case by simp
next
  case (Cons x xs)
  then show ?case by (cases i) (simp_all add: assms)
qed

lemma refs_settle: "map (\<lambda>s. (files_ref s, backup_ref s)) (settle ps ss) =
                    map (\<lambda>s. (files_ref s, backup_ref s)) ss"
proof (induction ps arbitrary: ss)
  case Nil
  show ?case by simp
next
  case (Cons p ps)
  have "map (\<lambda>s. (files_ref s, backup_ref s)) (ss[p := (ss ! p)\<lparr>outcome := fulfil (outcome (ss ! p))\<rparr>]) =
        map (\<lambda>s. (files_ref s, backup_ref s)) ss"
    by (rule map_update_same) simp
  with Cons [of "ss[p := (ss ! p)\<lparr>outcome := fulfil (outcome (ss ! p))\<rparr>]"] show ?case by simp
qed

lemma refs_resolve: "refs (resolve sid w) = refs w"
  by (simp add: refs_def resolve_def emit_def refs_settle del: settle.simps)

lemma refs_set_finished: "refs (set_finished sid w) = refs w"
  unfolding refs_def set_finished_def
  by (simp add: map_update_same [where g = "\<lambda>s. s\<lparr>finished := True\<rparr>"])

lemma resolve_rest:
  "heap (resolve sid w) = heap w" "timers (resolve sid w) = timers w"
  "next_ref (resolve sid w) = next_ref w"
  by (simp_all add: resolve_def emit_def)

lemma on_files_rest:
  "refs (on_files sid listing w) = refs w"
  "timers (on_files sid listing w) = timers w @ [(clock w + 1000, CloseSocket sid)]"
  "next_ref (on_files sid listing w) = next_ref w"
proof -
  let ?r = "files_ref (sessions w ! sid)"
  let ?w3 = "write_loop sid ?r
     (obj_keys (heap (prune_loop ?r listing (delete_loop sid (obj_keys (heap w ?r)) listing w)) ?r))
     (prune_loop ?r listing (delete_loop sid (obj_keys (heap w ?r)) listing w))"
  have w3: "sessions ?w3 = sessions w" "timers ?w3 = timers w" "next_ref ?w3 = next_ref w"
    "clock ?w3 = clock w"
    by (simp_all add: write_loop_rest prune_loop_rest delete_loop_rest)
  have of: "on_files sid listing w =
          resolve sid (set_finished sid (set_timeout 1000 (CloseSocket sid) ?w3))"
    by (simp add: on_files_def Let_def)
  have "refs (set_timeout 1000 (CloseSocket sid) ?w3) = refs w"
    by (simp add: refs_def set_timeout_def w3)
  then show "refs (on_files sid listing w) = refs w"
    by (simp add: of refs_resolve refs_set_finished)
  show "timers (on_files sid listing w) = timers w @ [(clock w + 1000, CloseSocket sid)]"
    by (simp add: of resolve_rest set_finished_def set_timeout_def w3)
  show "next_ref (on_files sid listing w) = next_ref w"
    by (simp add: of resolve_rest set_finished_def set_timeout_def w3)
qed

lemma refs_nth:
  "refs w = rs \<Longrightarrow> sid < length rs \<Longrightarrow> files_ref (sessions w ! sid) = fst (rs ! sid)"
  by (auto simp: refs_def)

lemma length_refs: "length (refs w) = length (sessions w)"
  by (simp add: refs_def)

lemma refs_updates:
  "refs (w\<lparr>trace := tr\<rparr>) = refs w"
  "refs (w\<lparr>timers := ts\<rparr>) = refs w"
  "refs (w\<lparr>clock := c\<rparr>) = refs w"
  "refs (w\<lparr>heap := h\<rparr>) = refs w"
  "refs (w\<lparr>next_ref := n\<rparr>) = refs w"
  by (simp_all add: refs_def)

lemma on_message_step:
  assumes "\<not> is_signal fr" and "refs w = rs" and "\<forall>p\<in>set rs. fst p \<noteq> b"
  shows "refs (on_message sid fr w) = rs \<and> heap (on_message sid fr w) b = heap w b \<and>
         next_ref (on_message sid fr w) = next_ref w \<and>
         filter is_retry (timers (on_message sid fr w)) = filter is_retry (timers w)"
proof (cases "sid < length (sessions w)")
  case False
  with assms show ?thesis by (simp add: on_message_def)
next
  case True
  with assms(2) have "(files_ref (sessions w ! sid), backup_ref (sessions w ! sid)) \<in> set rs"
    by (auto simp: refs_def)
  with assms(3) have nb: "files_ref (sessions w ! sid) \<noteq> b" by auto
  from assms(1,2) True nb show ?thesis
    by (auto simp: on_message_def is_signal_def ws_send_def emit_def refs_updates
        on_files_rest on_files_heap is_retry_def
        split: frame.splits out_type.splits option.splits)
qed

lemma quiet_before_signal:
  "\<not> is_signal fr \<Longrightarrow> before_signal files w \<Longrightarrow> before_signal files (on_message sid fr w)"
  using on_message_step [of fr w "[(0, 1)]" 1 sid]
  by (simp add: before_signal_def)

lemma quiet_retry_pending:
  assumes "\<not> is_signal fr" and "retry_pending files w"
  shows "retry_pending files (on_message sid fr w)"
proof -
  from assms on_message_step [of fr w "[(0, 1)]" 1 sid]
  have a: "refs (on_message sid fr w) = [(0, 1)]" "heap (on_message sid fr w) 1 = files"
    "next_ref (on_message sid fr w) = 2"
    "filter is_retry (timers (on_message sid fr w)) = filter is_retry (timers w)"
    by (simp_all add: retry_pending_def)
  from assms(2) have "\<forall>x\<in>set (filter is_retry (timers w)). snd x = RetryUpload 0"
    by (auto simp: retry_pending_def list_all_iff)
  with a(4) have "\<forall>x\<in>set (filter is_retry (timers (on_message sid fr w))). snd x = RetryUpload 0"
    by simp
  then have "list_all (\<lambda>x. is_retry x \<longrightarrow> snd x = RetryUpload 0) (timers (on_message sid fr w))"
    by (auto simp: list_all_iff)
  with a assms(2) show ?thesis
    by (simp add: retry_pending_def)
qed

lemma quiet_retry_started:
  "\<not> is_signal fr \<Longrightarrow> retry_started files w \<Longrightarrow> retry_started files (on_message sid fr w)"
  using on_message_step [of fr w "[(0, 1), (1, 2)]" 2 sid]
  by (simp add: retry_started_def)

lemma signal_before_signal:
  assumes "is_signal fr" and "before_signal files w"
  shows "before_signal files (on_message sid fr w) \<or> retry_pending files (on_message sid fr w)"
proof (cases "sid < length (sessions w)")
  case False
  with assms show ?thesis by (simp add: on_message_def)
next
  case True
  with assms(2) have sid: "sid = 0"
    using length_refs [of w] by (simp add: before_signal_def)
  from assms(1) obtain v where fr: "fr = BinaryFrame NotInitialized v"
    by (auto simp: is_signal_def split: frame.splits out_type.splits)
  have "refs (on_message 0 fr w) = refs w"
    using True sid
    by (simp add: fr on_message_def on_not_initialized_def Let_def set_timeout_def emit_def
        refs_updates refs_set_finished)
  moreover have "heap (on_message 0 fr w) = heap w" "next_ref (on_message 0 fr w) = next_ref w"
    "timers (on_message 0 fr w) = timers w @ [(clock w + 1000, RetryUpload 0)]"
    using True sid
    by (simp_all add: fr on_message_def on_not_initialized_def Let_def set_timeout_def emit_def
        set_finished_def)
  ultimately have "retry_pending files (on_message 0 fr w)"
    using assms(2)
    by (simp add: before_signal_def retry_pending_def is_retry_def list_all_iff filter_empty_conv)
  with sid show ?thesis by simp
qed

lemma next_due_mem: "next_due xs = Some x \<Longrightarrow> x \<in> set xs"
  by (induction xs arbitrary: x) (auto split: option.splits if_splits)

lemma fire_other:
  assumes "\<not> is_retry (d, cb)"
  shows "refs (fire cb w) = refs w" "heap (fire cb w) = heap w"
    "next_ref (fire cb w) = next_ref w" "timers (fire cb w) = timers w"
  using assms
  by (cases cb; simp add: fire_def is_retry_def emit_def refs_updates refs_resolve resolve_rest)+

lemma fire_retry:
  assumes "refs w = [(0, 1)]" and "next_ref w = 2"
  shows "refs (fire (RetryUpload 0) w) = [(0, 1), (1, 2)]"
    "heap (fire (RetryUpload 0) w) 2 = heap w 1"
    "next_ref (fire (RetryUpload 0) w) = 3"
    "timers (fire (RetryUpload 0) w) = timers w @ [(clock w + 10000, TimeoutGuard 1)]"
proof -
  from assms(1) have len: "length (sessions w) = 1"
    using length_refs [of w] by simp
  from assms(1) have b: "backup_ref (sessions w ! 0) = 1"
    by (cases "sessions w") (auto simp: refs_def)
  from assms len b show "refs (fire (RetryUpload 0) w) = [(0, 1), (1, 2)]"
    "heap (fire (RetryUpload 0) w) 2 = heap w 1"
    "next_ref (fire (RetryUpload 0) w) = 3"
    "timers (fire (RetryUpload 0) w) = timers w @ [(clock w + 10000, TimeoutGuard 1)]"
    by (simp_all add: fire_def uploadFiles_def Let_def emit_def set_timeout_def refs_def)
qed

lemma run_timers_before_signal:
  "before_signal files w \<Longrightarrow> before_signal files (run_timers t w)"
proof (induction t w rule: run_timers.induct)
  case (1 t w)
  show ?case
  proof (cases "next_due (timers w)")
    case None
    with "1.prems" show ?thesis
      by (simp add: run_timers.simps [of t w] before_signal_def refs_updates)
  next
    case (Some x)
    show ?thesis
    proof (cases "t < fst x")
      case True
      with Some "1.prems" show ?thesis
        by (simp add: run_timers.simps [of t w] before_signal_def refs_updates)
    next
      case False
      let ?w = "w\<lparr>clock := max (clock w) (fst x), timers := remove1 x (timers w)\<rparr>"
      from next_due_mem [OF Some] "1.prems" have nr: "\<not> is_retry (fst x, snd x)"
        by (auto simp: before_signal_def filter_empty_conv)
      from "1.prems" have "filter is_retry (remove1 x (timers w)) = []"
        by (auto simp: before_signal_def filter_empty_conv dest: notin_set_remove1)
      with "1.prems" have "before_signal files (fire (snd x) ?w)"
        by (simp add: before_signal_def fire_other [OF nr] refs_updates)
      from "1.IH" [OF Some False this] Some False show ?thesis
        by (simp add: run_timers.simps [of t w])
    qed
  qed
qed

lemma run_timers_retry_started:
  "retry_started files w \<Longrightarrow> retry_started files (run_timers t w)"
proof (induction t w rule: run_timers.induct)
  case (1 t w)
  show ?case
  proof (cases "next_due (timers w)")
    case None
    with "1.prems" show ?thesis
      by (simp add: run_timers.simps [of t w] retry_started_def refs_updates)
  next
    case (Some x)
    show ?thesis
    proof (cases "t < fst x")
      case True
      with Some "1.prems" show ?thesis
        by (simp add: run_timers.simps [of t w] retry_started_def refs_updates)
    next
      case False
      let ?w = "w\<lparr>clock := max (clock w) (fst x), timers := remove1 x (timers w)\<rparr>"
      from next_due_mem [OF Some] "1.prems" have nr: "\<not> is_retry (fst x, snd x)"
        by (auto simp: retry_started_def filter_empty_conv)
      from "1.prems" have "filter is_retry (remove1 x (timers w)) = []"
        by (auto simp: retry_started_def filter_empty_conv dest: notin_set_remove1)
      with "1.prems" have "retry_started files (fire (snd x) ?w)"
        by (simp add: retry_started_def fire_other [OF nr] refs_updates)
      from "1.IH" [OF Some False this] Some False show ?thesis
        by (simp add: run_timers.simps [of t w])
    qed
  qed
qed

lemma run_timers_retry_pending:
  "retry_pending files w \<Longrightarrow>
   retry_pending files (run_timers t w) \<or> retry_started files (run_timers t w)"
proof (induction t w rule: run_timers.induct)
  case (1 t w)
  show ?case
  proof (cases "next_due (timers w)")
    case None
    with "1.prems" show ?thesis
      by (simp add: run_timers.simps [of t w] retry_pending_def refs_updates)
  next
    case (Some x)
    show ?thesis
    proof (cases "t < fst x")
      case True
      with Some "1.prems" show ?thesis
        by (simp add: run_timers.simps [of t w] retry_pending_def refs_updates)
    next
      case False
      let ?w = "w\<lparr>clock := max (clock w) (fst x), timers := remove1 x (timers w)\<rparr>"
      have run: "run_timers t w = run_timers t (fire (snd x) ?w)"
        using Some False by (simp add: run_timers.simps [of t w])
      have mem: "x \<in> set (timers w)" by (rule next_due_mem [OF Some])
      have all: "list_all (\<lambda>y. is_retry y \<longrightarrow> snd y = RetryUpload 0) (remove1 x (timers w))"
        using "1.prems" by (auto simp: retry_pending_def list_all_iff dest: notin_set_remove1)
      show ?thesis
      proof (cases "is_retry x")
        case True
        with mem "1.prems" have cb: "snd x = RetryUpload 0"
          by (auto simp: retry_pending_def list_all_iff)
        from True mem have "x \<in> set (filter is_retry (timers w))" by simp
        with "1.prems" have "length (filter is_retry (remove1 x (timers w))) = 0"
          by (simp add: retry_pending_def filter_remove1 length_remove1)
        then have none: "filter is_retry (remove1 x (timers w)) = []" by simp
        from "1.prems" have r: "refs ?w = [(0, 1)]" "next_ref ?w = 2" "heap ?w 1 = files"
          by (simp_all add: retry_pending_def refs_updates)
        from fire_retry [OF r(1,2)] r(3) none
        have "retry_started files (fire (snd x) ?w)"
          by (simp add: cb retry_started_def is_retry_def)
        then have "retry_started files (run_timers t (fire (snd x) ?w))"
          by (rule run_timers_retry_started)
        with run show ?thesis by simp
      next
        case nr: False
        then have nr': "\<not> is_retry (fst x, snd x)" by simp
        from nr have "filter is_retry (remove1 x (timers w)) = filter is_retry (timers w)"
          by (simp add: filter_remove1 remove1_idem)
        with "1.prems" all have "retry_pending files (fire (snd x) ?w)"
          by (simp add: retry_pending_def fire_other [OF nr'] refs_updates)
        from "1.IH" [OF Some False this] run show ?thesis by simp
      qed
    qed
  qed
qed

lemma before_signal_start: "before_signal files (start tok files)"
  by (simp add: before_signal_def start_def uploadFiles_def Let_def emit_def set_timeout_def
      refs_def is_retry_def)

lemma exec_after_signal:
  assumes "\<forall>ev\<in>set evs. \<not> is_signal (snd (snd ev))"
    and "retry_pending files w \<or> retry_started files w"
  shows "retry_pending files (exec evs w) \<or> retry_started files (exec evs w)"
  using assms
proof (induction evs arbitrary: w)
  case Nil
  then show ?case by simp
next
  case (Cons ev evs)
  obtain t sid fr where ev: "ev = (t, sid, fr)" by (cases ev) auto
  with Cons.prems have q: "\<not> is_signal fr" by simp
  from Cons.prems(2) have "retry_pending files (run_timers t w) \<or> retry_started files (run_timers t w)"
    using run_timers_retry_pending [of files w t] run_timers_retry_started [of files w t] by auto
  with q have "retry_pending files (on_message sid fr (run_timers t w)) \<or>
               retry_started files (on_message sid fr (run_timers t w))"
    using quiet_retry_pending quiet_retry_started by blast
  with Cons.IH [of "on_message sid fr (run_timers t w)"] Cons.prems(1) show ?case
    by (simp add: ev)
qed

lemma exec_single_signal:
  assumes "length (filter (\<lambda>ev. is_signal (snd (snd ev))) evs) \<le> 1"
    and "before_signal files w"
  shows "before_signal files (exec evs w) \<or> retry_pending files (exec evs w) \<or>
         retry_started files (exec evs w)"
  using assms
proof (induction evs arbitrary: w)
  case Nil
  then show ?case by simp
next
  case (Cons ev evs)
  obtain t sid fr where ev: "ev = (t, sid, fr)" by (cases ev) auto
  let ?w = "on_message sid fr (run_timers t w)"
  from Cons.prems(2) have b: "before_signal files (run_timers t w)"
    by (rule run_timers_before_signal)
  show ?case
  proof (cases "is_signal fr")
    case False
    with b have "before_signal files ?w" by (simp add: quiet_before_signal)
    moreover from False Cons.prems(1) have "length (filter (\<lambda>ev. is_signal (snd (snd ev))) evs) \<le> 1"
      by (simp add: ev)
    ultimately show ?thesis
      using Cons.IH [of ?w] by (simp add: ev)
  next
    case True
    with Cons.prems(1) have none: "\<forall>ev\<in>set evs. \<not> is_signal (snd (snd ev))"
      by (simp add: ev filter_empty_conv)
    from signal_before_signal [OF True b, of sid]
    show ?thesis
    proof
      assume "before_signal files ?w"
      moreover from none have "length (filter (\<lambda>ev. is_signal (snd (snd ev))) evs) \<le> 1"
        by (simp add: filter_empty_conv [THEN iffD2])
      ultimately show ?thesis
        using Cons.IH [of ?w] by (simp add: ev)
    next
      assume "retry_pending files ?w"
      with exec_after_signal [OF none, of files ?w] show ?thesis
        by (simp add: ev)
    qed
  qed
qed

text \<open>
  When the socket delivers \<open>NotInitialized\<close> at most once in the whole run, whatever
  else arrives and whenever: there is at most one retry, it runs on the backup object of
  the first session, and the copy it took at its start is the original desired set.
\<close>

lemma first_retry_starts_pristine:
  assumes "length (filter (\<lambda>ev. is_signal (snd (snd ev))) evs) \<le> 1"
  shows "length (sessions (run_timers T (exec evs (start tok files)))) \<le> 2 \<and>
         (length (sessions (run_timers T (exec evs (start tok files)))) = 2 \<longrightarrow>
            files_ref (sessions (run_timers T (exec evs (start tok files))) ! 1) =
              backup_ref (sessions (run_timers T (exec evs (start tok files))) ! 0) \<and>
            heap (run_timers T (exec evs (start tok files)))
              (backup_ref (sessions (run_timers T (exec evs (start tok files))) ! 1)) = files)"
proof -
  let ?w = "run_timers T (exec evs (start tok files))"
  from exec_single_signal [OF assms before_signal_start [of files tok]]
  have "before_signal files ?w \<or> retry_pending files ?w \<or> retry_started files ?w"
    using run_timers_before_signal [of files "exec evs (start tok files)" T]
      run_timers_retry_pending [of files "exec evs (start tok files)" T]
      run_timers_retry_started [of files "exec evs (start tok files)" T]
    by blast
  moreover have "refs ?w = [(0, 1)] \<Longrightarrow> length (sessions ?w) = 1"
    using length_refs [of ?w] by simp
  moreover have "refs ?w = [(0, 1), (1, 2)] \<Longrightarrow>
       length (sessions ?w) = 2 \<and> files_ref (sessions ?w ! 1) = 1 \<and>
       backup_ref (sessions ?w ! 0) = 1 \<and> backup_ref (sessions ?w ! 1) = 2"
    by (auto simp: refs_def map_eq_Cons_conv)
  ultimately show ?thesis
    by (auto simp: before_signal_def retry_pending_def retry_started_def)
qed

text \<open>
  Claim C4.  The retry does not use the \<open>files\<close> object that its session has pruned,
  but the retries of one session share the object \<open>filesBackup\<close>, and each of them
  prunes it as its own \<open>files\<close>.  When the socket delivers \<open>NotInitialized\<close> twice,
  the second retry starts from what the first has left: in the run below the desired
  set is \<open>{a: ""}\<close>, the first retry finds \<open>a\<close> unchanged and removes it from the
  shared object, and the second retry (session 2) starts with the empty set and tells
  the container to delete \<open>a\<close>.
\<close>

theorem second_retry_starts_pruned:
  "heap double_signal_run (backup_ref (sessions double_signal_run ! 2)) = [] \<and>
   sent_on 2 (trace double_signal_run) = [GetFiles, DeleteFile ''a'']"
  unfolding double_signal_run_def by code_simp

subsection \<open>Promises, traces and the parts of the world\<close>











text \<open>What the handlers and \<open>uploadFiles\<close> do to the parts of the world.\<close>

lemma on_not_initialized_fields:
  "sessions (on_not_initialized s w) = (sessions w)[s := (sessions w ! s)\<lparr>finished := True\<rparr>]"
  "timers (on_not_initialized s w) = timers w @ [(clock w + 1000, RetryUpload s)]"
  "trace (on_not_initialized s w) =
     trace w @ [ConsoleWarn ''Received NotInitialized, retrying...'', WsClose s]"
  "crashed (on_not_initialized s w) = crashed w"
  by (simp_all add: on_not_initialized_def Let_def emit_def set_finished_def set_timeout_def)


lemma on_files_crashed: "crashed (on_files s listing w) = crashed w"
proof -
  have a: "crashed (delete_loop s items fs v) = crashed v" for items fs v
    by (induction fs arbitrary: v) (simp_all add: ws_send_def emit_def)
  have b: "crashed (prune_loop r fs v) = crashed v" for r fs v
    by (induction fs arbitrary: v) (simp_all add: delete_prop_def emit_def)
  have c: "crashed (write_loop s r ks v) = crashed v" for r ks v
    by (induction ks arbitrary: v) (simp_all add: ws_send_def emit_def)
  show ?thesis
    by (simp add: on_files_def Let_def resolve_def emit_def set_finished_def set_timeout_def a b c)
qed

lemma uploadFiles_fields:
  "sessions (uploadFiles tok fr chain w) =
     sessions w @
     [\<lparr>token = tok, files_ref = fr, backup_ref = next_ref w, finished = False,
       then_chain = chain, outcome = Pending\<rparr>]"
  "timers (uploadFiles tok fr chain w) =
     timers w @ [(clock w + 10000, TimeoutGuard (length (sessions w)))]"
  "trace (uploadFiles tok fr chain w) =
     trace w @ [WsOpen (length (sessions w)) (control_url tok)]"
  "crashed (uploadFiles tok fr chain w) = crashed w"
  "clock (uploadFiles tok fr chain w) = clock w"
  by (simp_all add: uploadFiles_def Let_def emit_def set_timeout_def)


subsection \<open>Well-formed worlds\<close>

text \<open>Every handler and every timer keeps a world well formed; so does a run.\<close>

lemma well_formed_iff:
  "well_formed w =
     ((\<forall>x\<in>set (timers w). cb_session (snd x) < length (sessions w)) \<and>
      (\<forall>i<length (sessions w).
         (\<forall>c\<in>set (then_chain (sessions w ! i)). c < length (sessions w)) \<and>
         outcome (sessions w ! i) \<noteq> Rejected) \<and>
      (\<forall>e\<in>set (trace w). event_known (length (sessions w)) e))"
  unfolding well_formed_def list_all_iff all_set_conv_all_nth by auto







lemma well_formed_uploadFiles:
  assumes "well_formed w" and "\<forall>c\<in>set chain. c < length (sessions w)"
  shows "well_formed (uploadFiles tok fr chain w)"
proof -
  have ev: "event_known n e \<Longrightarrow> event_known (Suc n) e" for n e
    by (cases e) simp_all
  from assms show ?thesis
    by (auto simp: well_formed_iff uploadFiles_fields nth_append less_Suc_eq ev)
qed







lemma well_formed_start: "well_formed (start tok files)"
  unfolding start_def
  by (rule well_formed_uploadFiles) (simp_all add: well_formed_iff)

subsection \<open>A session that sees only quiet frames\<close>


































subsection \<open>Claims about sessions\<close>

text \<open>
  Every session is a call of \<open>uploadFiles\<close> in a well-formed world: the first one in
  the idle process, a retry in the world in which its timer runs.
\<close>

lemma start_is_a_session: "start tok files = uploadFiles tok 0 [] (idle files)"
  by (simp add: start_def idle_def)


lemma retry_is_a_session:
  "fire (RetryUpload s) w =
     uploadFiles (token (sessions w ! s)) (backup_ref (sessions w ! s))
       (s # then_chain (sessions w ! s)) w"
  by (simp add: fire_def Let_def)

text \<open>\<open>retry_world\<close> is where the retry of the example starts.\<close>

lemma retry_world_is_reached:
  "run_timers 1000 (on_message 0 (BinaryFrame NotInitialized None) (start ''t'' [(''a'', ''1'')])) =
     uploadFiles ''t'' 1 [0] retry_world"
  apply (subst run_timers.simps)
  apply (simp add: on_message_def on_not_initialized_def start_def uploadFiles_def Let_def emit_def
      set_finished_def set_timeout_def fire_def retry_world_def)
  apply (subst run_timers.simps)
  apply (simp add: on_message_def on_not_initialized_def start_def uploadFiles_def Let_def emit_def
      set_finished_def set_timeout_def fire_def retry_world_def)
  done

text \<open>Only a socket error ends the process.\<close>

lemma crashed_fire: "crashed (fire cb w) = crashed w"
  by (cases cb) (simp_all add: fire_def uploadFiles_def Let_def emit_def set_timeout_def resolve_def)

lemma crashed_run_timers: "crashed (run_timers t w) = crashed w"
proof (induction t w rule: run_timers.induct)
  case (1 t w)
  show ?case
  proof (cases "next_due (timers w)")
    case None
    then show ?thesis by (simp add: run_timers.simps [of t w])
  next
    case (Some x)
    show ?thesis
    proof (cases "t < fst x")
      case True
      with Some show ?thesis by (simp add: run_timers.simps [of t w])
    next
      case False
      with Some "1.IH" [OF Some False] show ?thesis
        by (simp add: run_timers.simps [of t w] crashed_fire)
    qed
  qed
qed

lemma crashed_on_message: "crashed (on_message s fr w) = crashed w"
  by (simp add: on_message_def ws_send_def emit_def on_not_initialized_fields on_files_crashed
      split: frame.splits out_type.splits option.splits)

text \<open>On a schedule of frames \<open>run_events\<close> is \<open>exec\<close>.\<close>

lemma run_events_frames:
  "\<not> crashed w \<Longrightarrow>
   run_events (map (\<lambda>(t, s, fr). (t, s, Message fr)) evs) w = exec evs w"
proof (induction evs arbitrary: w)
  case Nil
  show ?case by simp
next
  case (Cons ev evs)
  obtain t s fr where ev: "ev = (t, s, fr)" by (cases ev) auto
  from Cons.prems have "\<not> crashed (on_message s fr (run_timers t w))"
    by (simp add: crashed_on_message crashed_run_timers)
  from Cons.IH [OF this] Cons.prems show ?case
    by (simp add: ev advance_def crashed_run_timers)
qed




text \<open>In that run the promise resolves at 20 seconds, through the timer of the retry.\<close>

lemma late_signal_resolves_through_retry:
  "settled (sessions (advance 20000
      (run_events [(9000, 0, Message (BinaryFrame NotInitialized None))] (start ''t'' []))) ! 0)"
  by code_simp

text \<open>
  A signal to each retry in turn keeps the promise waiting: with a \<open>NotInitialized\<close>
  9 seconds after the start of the session and of each of its first two retries, the
  promise is unresolved after 39 seconds, and no timeout has been logged.
\<close>

lemma repeated_signals_keep_waiting:
  "\<not> settled (sessions (advance 39000
      (run_events [(9000, 0, Message (BinaryFrame NotInitialized None)),
                   (19000, 1, Message (BinaryFrame NotInitialized None)),
                   (29000, 2, Message (BinaryFrame NotInitialized None))] (start ''t'' []))) ! 0) \<and>
   timeout_warning \<notin> set (trace (advance 39000
      (run_events [(9000, 0, Message (BinaryFrame NotInitialized None)),
                   (19000, 1, Message (BinaryFrame NotInitialized None)),
                   (29000, 2, Message (BinaryFrame NotInitialized None))] (start ''t'' []))))"
  by code_simp

text \<open>
  After the error nothing happens any more: the trace ends with the opening of the
  socket.  A message that does not decode has the same effect.
\<close>

lemma socket_error_ends_process:
  "crashed socket_error_run \<and> outcome (sessions socket_error_run ! 0) = Pending \<and>
   trace socket_error_run = [WsOpen 0 (control_url ''t'')]"
  unfolding socket_error_run_def by code_simp

lemma undecodable_message_ends_process:
  "crashed (advance 60000 (run_events [(100, 0, Undecodable)] (start ''t'' []))) \<and>
   outcome (sessions (advance 60000 (run_events [(100, 0, Undecodable)] (start ''t'' []))) ! 0) =
     Pending"
  by code_simp




section \<open>Properties of name resolution\<close>

lemma map_of_obj_set_fun: "map_of (obj_set ob k v) = (map_of ob)(k \<mapsto> v)"
  by (induction ob) (auto simp: fun_eq_iff)

lemma map_of_obj_set: "map_of (obj_set ob k v) k = Some v"
  by (induction ob) auto

lemma delay_fields: "memos (delay st e) = memos e" "requests (delay st e) = requests e"
  by (simp_all add: delay_def Let_def)

lemma memo_hit_delay: "memo_hit st (delay st' e) s = memo_hit st e s"
  by (simp add: memo_hit_def delay_fields)

lemma memo_miss_assign:
  assumes "memo_hit st e s = None"
  shows "obj_read (obj_assign (memos e (idsMap st)) s r) s = Own r"
proof (cases "map_of (memos e (idsMap st)) s")
  case None
  with assms have "s \<notin> set object_prototype_keys"
    by (auto simp: memo_hit_def obj_read_def split: if_splits)
  then have "s \<noteq> ''__proto__''"
    by (auto simp: object_prototype_keys_def)
  then show ?thesis
    by (simp add: obj_assign_def obj_read_def map_of_obj_set)
next
  case (Some v)
  then show ?thesis
    by (simp add: obj_assign_def obj_read_def map_of_obj_set)
qed



text \<open>
  Claim C3, as the code has it.  The copy \<open>{ ...state }\<close> copies the reference to
  the memo, not the memo.  So for two states with the same memo reference (a state and
  its copy, or two copies of one state, taken at any depth) a name resolved through one
  of them is afterwards answered from the memo through the other: with the same
  identifier, whatever the server would say now, and without a request.
\<close>

theorem memo_shared_between_forks:
  assumes "take 1 s \<noteq> '':''" and "idsMap b = idsMap a"
    and "mapID net (Some s) a e = (Inr (Some v), e1)" and "v \<noteq> IdText []"
  shows "idsMap (fork a) = idsMap a \<and>
         mapID net' (Some s) b e1 = (Inr (Some v), delay b e1) \<and>
         requests (delay b e1) = requests e1"
proof -
  have "memo_hit b e1 s = Some v"
  proof (cases "memo_hit a e s")
    case (Some u)
    with assms(1,3) have "u = v" and "e1 = delay a e"
      by (simp_all add: mapID_def)
    with Some assms(2) show ?thesis
      by (simp add: memo_hit_def delay_fields)
  next
    case None
    from memo_miss_assign [OF None]
    have own: "obj_read (obj_assign (memos e (idsMap a)) s r) s = Own r" for r .
    from None assms(1,3,4) obtain r where "net s = IdFound r" and "v = IdText r" and "r \<noteq> []"
      and "e1 = delay a (e\<lparr>requests := requests e @ [s],
                           memos := (memos e)(idsMap a := obj_assign (memos e (idsMap a)) s r)\<rparr>)"
      by (auto simp: mapID_def Let_def split: id_response.splits if_splits)
    with own [of r] assms(2) show ?thesis
      by (simp add: memo_hit_def delay_fields)
  qed
  with assms(1) show ?thesis
    by (simp add: mapID_def fork_def delay_fields)
qed

theorem memo_shared_between_forks_witness:
  "take 1 ''basics'' \<noteq> '':'' \<and>
   idsMap (fork (fst (upload_state ''key''))) = idsMap (fork (fst (upload_state ''key''))) \<and>
   fst (mapID course_server (Some ''basics'') (fork (fst (upload_state ''key'')))
          (snd (upload_state ''key''))) = Inr (Some (IdText ''id-of-basics'')) \<and>
   IdText ''id-of-basics'' \<noteq> IdText [] \<and>
   fst (mapID (\<lambda>name. IdFailed None) (Some ''basics'') (fork (fst (upload_state ''key'')))
          (snd (mapID course_server (Some ''basics'') (fork (fst (upload_state ''key'')))
                  (snd (upload_state ''key''))))) = Inr (Some (IdText ''id-of-basics''))"
proof -
  let ?a = "fork (fst (upload_state ''key''))"
  let ?e = "snd (upload_state ''key'')"
  let ?e1 = "snd (mapID course_server (Some ''basics'') ?a ?e)"
  have h1: "take 1 ''basics'' \<noteq> '':''" by simp
  have f: "fst (mapID course_server (Some ''basics'') ?a ?e) = Inr (Some (IdText ''id-of-basics''))"
    by (simp add: mapID_def memo_hit_def upload_state_def obj_read_def object_prototype_keys_def
        fork_def course_server_def Let_def)
  then have h3: "mapID course_server (Some ''basics'') ?a ?e =
      (Inr (Some (IdText ''id-of-basics'')), ?e1)"
    by (simp add: prod_eq_iff)
  have h4: "IdText ''id-of-basics'' \<noteq> IdText []" by simp
  have "fst (mapID (\<lambda>name. IdFailed None) (Some ''basics'') ?a ?e1) =
          Inr (Some (IdText ''id-of-basics''))"
    using memo_shared_between_forks [OF h1 refl h3 h4, of "\<lambda>name. IdFailed None"]
    by simp
  with h1 f show ?thesis
    by simp
qed

text \<open>
  An entry of the memo stays: no later call of \<open>mapID\<close>, through whatever state and
  for whatever name, takes it away or changes it.
\<close>

lemma obj_read_assign_other: "k \<noteq> s \<Longrightarrow> obj_read (obj_assign ob k v) s = obj_read ob s"
  by (simp add: obj_read_def obj_assign_def map_of_obj_set_fun)

lemma memo_persists:
  assumes "memo_hit a e s = Some v"
  shows "memo_hit a (snd (mapID net name b e)) s = Some v"
proof (cases name)
  case None
  with assms show ?thesis by (simp add: mapID_def)
next
  case (Some n)
  show ?thesis
  proof (cases "take 1 n = '':'' \<or> memo_hit b e n \<noteq> None")
    case True
    with assms Some show ?thesis
      by (auto simp: mapID_def memo_hit_delay)
  next
    case False
    then have miss: "memo_hit b e n = None" and plain: "take 1 n \<noteq> '':''" by simp_all
    have "memo_hit a (e\<lparr>requests := rq, memos := (memos e)(idsMap b := obj_assign (memos e (idsMap b)) n r)\<rparr>) s =
          Some v" for rq r
    proof (cases "idsMap b = idsMap a")
      case True
      with miss assms have "n \<noteq> s" by (auto simp: memo_hit_def)
      with True assms show ?thesis
        by (simp add: memo_hit_def obj_read_assign_other)
    next
      case False
      with assms show ?thesis by (simp add: memo_hit_def)
    qed
    moreover have "memo_hit a (e\<lparr>requests := rq\<rparr>) s = Some v" for rq
      using assms by (simp add: memo_hit_def)
    ultimately show ?thesis
      using Some miss plain
      by (simp add: mapID_def Let_def memo_hit_delay split: id_response.splits)
  qed
qed

text \<open>
  The claim as stated (a memo per fork, siblings not seeing each other's entries) does
  not hold.  In the small course the sibling lessons \<open>a\<close> and \<open>b\<close> name the same
  unit; the walk asks the server for \<open>basics\<close> once, while \<open>a\<close> is handled, and
  \<open>b\<close> takes it from the memo.
\<close>

theorem siblings_share_memo:
  "map_option (\<lambda>r. (fst r, requests (snd r))) course_run =
     Some (Inr (), [''first'', ''basics'', ''second''])"
  unfolding course_run_def by code_simp

section \<open>Properties of the manifest walker\<close>

lemma and_then_mono:
  assumes "and_then m f = Some r"
    and "\<And>y. m = Some y \<Longrightarrow> m' = Some y"
    and "\<And>x e. f x e = Some r \<Longrightarrow> f' x e = Some r"
  shows "and_then m' f' = Some r"
proof (cases m)
  case None
  with assms(1) show ?thesis by (simp add: and_then_def)
next
  case (Some y)
  with assms(2) have m': "m' = Some y" by simp
  obtain v e where y: "y = (v, e)" by (cases y) auto
  show ?thesis
  proof (cases v)
    case (Inl err)
    with assms(1) Some m' y show ?thesis by (simp add: and_then_def)
  next
    case (Inr x)
    with assms(1) Some y have "f x e = Some r" by (simp add: and_then_def)
    then have "f' x e = Some r" by (rule assms(3))
    with Inr m' y show ?thesis by (simp add: and_then_def)
  qed
qed

lemma upload_loop_mono:
  assumes "\<And>st p m e r. rd st p m e = Some r \<Longrightarrow> rd' st p m e = Some r"
  shows "upload_loop rd pf st manifest nb items e = Some r \<Longrightarrow>
         upload_loop rd' pf st manifest nb items e = Some r"
proof (induction items arbitrary: e r)
  case Nil
  then show ?case by simp
next
  case (Cons item items)
  from Cons.prems show ?case
    unfolding upload_loop.simps
    by (elim and_then_mono) (auto intro: assms Cons.IH elim: and_then_mono)
qed

lemma before_dispatch_mono:
  assumes "\<And>st p m e r. rd st p m e = Some r \<Longrightarrow> rd' st p m e = Some r"
  shows "before_dispatch rd pf st manifest d e = Some r \<Longrightarrow>
         before_dispatch rd' pf st manifest d e = Some r"
  unfolding before_dispatch_def
  by (elim and_then_mono) (auto intro: upload_loop_mono [of rd rd', OF assms] elim: and_then_mono)

text \<open>A larger bound does not change a result.\<close>

lemma readManifest_mono:
  "readManifest n pf st parent manifest e = Some r \<Longrightarrow>
   readManifest (Suc n) pf st parent manifest e = Some r"
proof (induction n arbitrary: st parent manifest e r)
  case 0
  then show ?case by simp
next
  case (Suc n)
  have m: "\<And>st p m e r. readManifest n pf st p m e = Some r \<Longrightarrow>
                        readManifest (Suc n) pf st p m e = Some r"
    by (rule Suc.IH)
  from Suc.prems obtain q where
    q: "and_then (check_manifest (parse_file pf manifest) e) (\<lambda>d e0.
          and_then (before_dispatch (readManifest n pf) pf st manifest d e0) (\<lambda>st2 e1.
            Some (dispatch pf st2 manifest d e1))) = Some q"
    and r: "r = on_error parent manifest q"
    by auto
  from q have "and_then (check_manifest (parse_file pf manifest) e) (\<lambda>d e0.
          and_then (before_dispatch (readManifest (Suc n) pf) pf st manifest d e0) (\<lambda>st2 e1.
            Some (dispatch pf st2 manifest d e1))) = Some q"
    by (elim and_then_mono)
       (auto intro: before_dispatch_mono [of "readManifest n pf" "readManifest (Suc n) pf", OF m]
          elim: and_then_mono)
  with r show ?case
    by (simp del: readManifest.simps(2) add: readManifest.simps(2) [of "Suc n"])
qed

lemma check_manifest_object:
  "check_manifest (Inr (JObj kvs)) e = Some (Inr (JObj kvs), e)"
  by (simp add: check_manifest_def typeof_def isArray_def)

text \<open>On a list of names the loop of \<open>readManifest\<close> is the recursion into the children.\<close>

lemma upload_loop_children:
  "upload_loop rd pf st manifest (path_dirname pf manifest) (map JStr names) e =
     read_children rd pf st manifest names e"
  by (induction names arbitrary: e)
     (auto simp: and_then_def upload_item_def split: option.splits sum.splits prod.splits)

lemma before_dispatch_children:
  assumes "set_templates pf (path_dirname pf manifest) d st = Inr st1"
    and "set_configTemplate d st1 = Inr st2"
    and "upload_items d e = Some (Inr (map JStr names), e)"
  shows "before_dispatch rd pf st manifest d e =
           (case read_children rd pf st2 manifest names e of
              None \<Rightarrow> None
            | Some (Inl err, e1) \<Rightarrow> Some (Inl err, e1)
            | Some (Inr u, e1) \<Rightarrow> Some (Inr st2, e1))"
  using assms
  by (auto simp: before_dispatch_def assignments_def and_then_def upload_loop_children
      split: option.splits sum.splits prod.splits)

text \<open>
  Claim C9, as the code has it.  Let the manifest parse to an object whose
  \<open>templates\<close> and \<open>configTemplate\<close> pass their checks and whose \<open>upload\<close> is
  absent (or falsy) or a list of names.  Then \<open>readManifest\<close> first reads the children
  in order, each with a copy of the state; the error of a child is logged and thrown
  again, and a child that does not return keeps the parent from returning.  When the
  children have returned: if the type is absent or falsy (\<open>null\<close>, \<open>false\<close>, \<open>0\<close>,
  the empty string), \<open>readManifest\<close> returns without an error, with the environment
  that the children have left; if the type is a truthy value other than \<open>"unit"\<close> and
  \<open>"lesson"\<close>, it throws the error about the type.  And whatever the earlier steps do,
  with such a type every result of \<open>readManifest\<close> is an error.
\<close>

theorem type_dispatch:
  assumes "parse_file pf manifest = Inr (JObj kvs)"
  shows
    "(\<forall>st1 st2 names.
        set_templates pf (path_dirname pf manifest) (JObj kvs) st = Inr st1 \<and>
        set_configTemplate (JObj kvs) st1 = Inr st2 \<and>
        upload_items (JObj kvs) e = Some (Inr (map JStr names), e) \<longrightarrow>
        (\<not> truthy (map_of kvs ''type'') \<longrightarrow>
           readManifest (Suc n) pf st parent manifest e =
             map_option (on_error parent manifest)
               (read_children (readManifest n pf) pf st2 manifest names e)) \<and>
        (truthy (map_of kvs ''type'') \<and> map_of kvs ''type'' \<noteq> Some (JStr ''unit'') \<and>
         map_of kvs ''type'' \<noteq> Some (JStr ''lesson'') \<longrightarrow>
           readManifest (Suc n) pf st parent manifest e =
             map_option (on_error parent manifest)
               (case read_children (readManifest n pf) pf st2 manifest names e of
                  None \<Rightarrow> None
                | Some (Inl err, e1) \<Rightarrow> Some (Inl err, e1)
                | Some (Inr u, e1) \<Rightarrow> Some (Inl (Error type_error_text), e1)))) \<and>
     (\<forall>r e'. truthy (map_of kvs ''type'') \<and> map_of kvs ''type'' \<noteq> Some (JStr ''unit'') \<and>
        map_of kvs ''type'' \<noteq> Some (JStr ''lesson'') \<and>
        readManifest (Suc n) pf st parent manifest e = Some (r, e') \<longrightarrow> (\<exists>err. r = Inl err))"
proof (intro conjI allI impI)
  fix st1 st2 names
  assume h: "set_templates pf (path_dirname pf manifest) (JObj kvs) st = Inr st1 \<and>
        set_configTemplate (JObj kvs) st1 = Inr st2 \<and>
        upload_items (JObj kvs) e = Some (Inr (map JStr names), e)"
  then have h1: "set_templates pf (path_dirname pf manifest) (JObj kvs) st = Inr st1"
    and h2: "set_configTemplate (JObj kvs) st1 = Inr st2"
    and h3: "upload_items (JObj kvs) e = Some (Inr (map JStr names), e)"
    by simp_all
  have bd: "before_dispatch (readManifest n pf) pf st manifest (JObj kvs) e =
           (case read_children (readManifest n pf) pf st2 manifest names e of
              None \<Rightarrow> None
            | Some (Inl err, e1) \<Rightarrow> Some (Inl err, e1)
            | Some (Inr u, e1) \<Rightarrow> Some (Inr st2, e1))"
    by (rule before_dispatch_children [OF h1 h2 h3])
  {
    assume "\<not> truthy (map_of kvs ''type'')"
    with assms show "readManifest (Suc n) pf st parent manifest e =
             map_option (on_error parent manifest)
               (read_children (readManifest n pf) pf st2 manifest names e)"
      by (auto simp: check_manifest_object and_then_def bd dispatch_def field_def
          split: option.splits sum.splits prod.splits)
  }
  {
    assume "truthy (map_of kvs ''type'') \<and> map_of kvs ''type'' \<noteq> Some (JStr ''unit'') \<and>
         map_of kvs ''type'' \<noteq> Some (JStr ''lesson'')"
    with assms show "readManifest (Suc n) pf st parent manifest e =
             map_option (on_error parent manifest)
               (case read_children (readManifest n pf) pf st2 manifest names e of
                  None \<Rightarrow> None
                | Some (Inl err, e1) \<Rightarrow> Some (Inl err, e1)
                | Some (Inr u, e1) \<Rightarrow> Some (Inl (Error type_error_text), e1))"
      by (auto simp: check_manifest_object and_then_def bd dispatch_def field_def
          split: option.splits sum.splits prod.splits)
  }
next
  fix r e'
  assume a: "truthy (map_of kvs ''type'') \<and> map_of kvs ''type'' \<noteq> Some (JStr ''unit'') \<and>
        map_of kvs ''type'' \<noteq> Some (JStr ''lesson'') \<and>
        readManifest (Suc n) pf st parent manifest e = Some (r, e')"
  then have bad: "dispatch pf s2 manifest (JObj kvs) e1 = (Inl (Error type_error_text), e1)"
    for s2 e1
    by (simp add: dispatch_def field_def)
  show "\<exists>err. r = Inl err"
  proof (cases "before_dispatch (readManifest n pf) pf st manifest (JObj kvs) e")
    case None
    with a assms show ?thesis
      by (simp add: check_manifest_object and_then_def)
  next
    case (Some q)
    obtain v e1 where q: "q = (v, e1)" by (cases q) auto
    show ?thesis
    proof (cases v)
      case (Inl err)
      with a assms Some q show ?thesis
        by (auto simp: check_manifest_object and_then_def on_error_def)
    next
      case (Inr s2)
      with a assms Some q bad [of s2 e1] show ?thesis
        by (auto simp: check_manifest_object and_then_def on_error_def)
    qed
  qed
qed

theorem type_dispatch_witness:
  "parse_file course_platform ''manifest.json'' =
     Inr (JObj [(''upload'', JArr [JStr ''a'', JStr ''b''])]) \<and>
   set_templates course_platform (path_dirname course_platform ''manifest.json'')
     (JObj [(''upload'', JArr [JStr ''a'', JStr ''b''])]) (fst (upload_state ''key'')) =
     Inr (fst (upload_state ''key'')) \<and>
   set_configTemplate (JObj [(''upload'', JArr [JStr ''a'', JStr ''b''])])
     (fst (upload_state ''key'')) = Inr (fst (upload_state ''key'')) \<and>
   upload_items (JObj [(''upload'', JArr [JStr ''a'', JStr ''b''])]) (snd (upload_state ''key'')) =
     Some (Inr (map JStr [''a'', ''b'']), snd (upload_state ''key'')) \<and>
   \<not> truthy (map_of [(''upload'', JArr [JStr ''a'', JStr ''b''])] ''type'') \<and>
   outcome_of
     (readManifest (Suc (Suc 0)) course_platform (fst (upload_state ''key'')) None
        ''manifest.json'' (snd (upload_state ''key''))) =
     Some (Inr (), [''first'', ''basics'', ''second''],
           [''Uploaded Lesson '' @ dq @ ''a/manifest.json'' @ dq @ '' (ID: '' @ dq @ ''first'' @ dq @ '').'',
            ''Uploaded Lesson '' @ dq @ ''b/manifest.json'' @ dq @ '' (ID: '' @ dq @ ''second'' @ dq @ '').'']) \<and>
   parse_file quiz_course ''manifest.json'' =
     Inr (JObj [(''upload'', JArr [JStr ''a'', JStr ''b'']), (''type'', JStr ''quiz'')]) \<and>
   upload_items (JObj [(''upload'', JArr [JStr ''a'', JStr ''b'']), (''type'', JStr ''quiz'')])
     (snd (upload_state ''key'')) =
     Some (Inr (map JStr [''a'', ''b'']), snd (upload_state ''key'')) \<and>
   truthy (map_of [(''upload'', JArr [JStr ''a'', JStr ''b'']), (''type'', JStr ''quiz'')] ''type'') \<and>
   outcome_of
     (readManifest (Suc (Suc 0)) quiz_course (fst (upload_state ''key'')) None
        ''manifest.json'' (snd (upload_state ''key''))) =
     Some (Inl (Error type_error_text), [''first'', ''basics'', ''second''],
           [''Uploaded Lesson '' @ dq @ ''a/manifest.json'' @ dq @ '' (ID: '' @ dq @ ''first'' @ dq @ '').'',
            ''Uploaded Lesson '' @ dq @ ''b/manifest.json'' @ dq @ '' (ID: '' @ dq @ ''second'' @ dq @ '').'',
            ''An error occurred while reading manifest.json:''])"
proof -
  let ?st = "fst (upload_state ''key'')" and ?e = "snd (upload_state ''key'')"
  let ?root = "[(''upload'', JArr [JStr ''a'', JStr ''b''])]"
  have p1: "parse_file course_platform ''manifest.json'' = Inr (JObj ?root)"
    by (simp add: course_platform_def course_files_def)
  have a1: "set_templates course_platform (path_dirname course_platform ''manifest.json'')
              (JObj ?root) ?st = Inr ?st"
    by (simp add: set_templates_def field_def truthy_def)
  have a2: "set_configTemplate (JObj ?root) ?st = Inr ?st"
    by (simp add: set_configTemplate_def field_def truthy_def)
  have a3: "upload_items (JObj ?root) ?e = Some (Inr (map JStr [''a'', ''b'']), ?e)"
    by (simp add: upload_items_def field_def truthy_def)
  have t1: "\<not> truthy (map_of ?root ''type'')"
    by (simp add: truthy_def)
  note eq = type_dispatch [OF p1, of ?st ?e "Suc 0" None, THEN conjunct1, rule_format,
      OF conjI [OF a1 conjI [OF a2 a3]], THEN conjunct1, rule_format, OF t1]
  have val: "outcome_of (map_option (on_error None ''manifest.json'')
            (read_children (readManifest (Suc 0) course_platform) course_platform ?st
               ''manifest.json'' [''a'', ''b''] ?e)) =
     Some (Inr (), [''first'', ''basics'', ''second''],
           [''Uploaded Lesson '' @ dq @ ''a/manifest.json'' @ dq @ '' (ID: '' @ dq @ ''first'' @ dq @ '').'',
            ''Uploaded Lesson '' @ dq @ ''b/manifest.json'' @ dq @ '' (ID: '' @ dq @ ''second'' @ dq @ '').''])"
    by code_simp
  let ?quiz = "[(''upload'', JArr [JStr ''a'', JStr ''b'']), (''type'', JStr ''quiz'')]"
  have p2: "parse_file quiz_course ''manifest.json'' = Inr (JObj ?quiz)"
    by (simp add: quiz_course_def)
  have b1: "set_templates quiz_course (path_dirname quiz_course ''manifest.json'')
              (JObj ?quiz) ?st = Inr ?st"
    by (simp add: set_templates_def field_def truthy_def)
  have b2: "set_configTemplate (JObj ?quiz) ?st = Inr ?st"
    by (simp add: set_configTemplate_def field_def truthy_def)
  have b3: "upload_items (JObj ?quiz) ?e = Some (Inr (map JStr [''a'', ''b'']), ?e)"
    by (simp add: upload_items_def field_def truthy_def)
  have t2: "truthy (map_of ?quiz ''type'') \<and> map_of ?quiz ''type'' \<noteq> Some (JStr ''unit'') \<and>
            map_of ?quiz ''type'' \<noteq> Some (JStr ''lesson'')"
    by (simp add: truthy_def)
  note eq2 = type_dispatch [OF p2, of ?st ?e "Suc 0" None, THEN conjunct1, rule_format,
      OF conjI [OF b1 conjI [OF b2 b3]], THEN conjunct2, rule_format, OF t2]
  have val2: "outcome_of (map_option (on_error None ''manifest.json'')
            (case read_children (readManifest (Suc 0) quiz_course) quiz_course ?st
                    ''manifest.json'' [''a'', ''b''] ?e of
               None \<Rightarrow> None
             | Some (Inl err, e1) \<Rightarrow> Some (Inl err, e1)
             | Some (Inr u, e1) \<Rightarrow> Some (Inl (Error type_error_text), e1))) =
     Some (Inl (Error type_error_text), [''first'', ''basics'', ''second''],
           [''Uploaded Lesson '' @ dq @ ''a/manifest.json'' @ dq @ '' (ID: '' @ dq @ ''first'' @ dq @ '').'',
            ''Uploaded Lesson '' @ dq @ ''b/manifest.json'' @ dq @ '' (ID: '' @ dq @ ''second'' @ dq @ '').'',
            ''An error occurred while reading manifest.json:''])"
    by code_simp
  from t2 have t2': "truthy (map_of ?quiz ''type'')" by simp
  from p1 a1 a2 a3 t1 val p2 b3 t2' val2 show ?thesis
    by (simp only: eq eq2) simp
qed

text \<open>
  The claim as stated fails at both ends: the empty string is a value of \<open>type\<close>
  other than \<open>"unit"\<close> and \<open>"lesson"\<close>, and the manifest \<open>{"type": ""}\<close> is accepted
  (\<open>if (!data["type"]) return;\<close>); and a manifest without a type whose \<open>templates\<close>
  is a number is rejected.
\<close>

theorem type_dispatch_counterexample:
  "map_option fst
     (readManifest 1 (single_manifest (JObj [(''type'', JStr [])]))
        (fst (upload_state ''key'')) None ''manifest.json'' (snd (upload_state ''key''))) =
     Some (Inr ()) \<and>
   map_option fst
     (readManifest 1 (single_manifest (JObj [(''templates'', JNum 5)]))
        (fst (upload_state ''key'')) None ''manifest.json'' (snd (upload_state ''key''))) =
     Some (Inl (Error ''Templates must be a string!''))"
  by code_simp

section \<open>Properties of the configuration tiers\<close>

text \<open>
  Where the higher tier has a value that is no object and no array, that value stays,
  whatever the lower tier has at the key; where it has nothing, a scalar of the lower
  tier is taken.
\<close>

lemma merge_value_keeps_scalar:
  assumes "\<forall>arr props. p \<noteq> VObj arr props"
  shows "merge_value (Some p) sv = p"
  using assms by (cases sv; cases p) auto

lemma merge_value_fills_scalar:
  assumes "\<forall>arr props. sv \<noteq> VObj arr props"
  shows "merge_value None sv = sv"
  using assms by (cases sv) auto

text \<open>
  Claim C2.  The claim, like the comment in \<open>handleLesson\<close> (anything other than
  objects, including arrays, will always be overridden by the highest object that
  defines it), says that an array of a higher tier replaces the array of a lower tier.
  \<open>defaultsDeep\<close> merges two arrays index by index, as it merges two objects key by
  key: the element 3 of the template's array shows up behind the lesson's array.
\<close>

theorem array_tiers_are_merged:
  "configData (Some (JObj [(''a'', JArr [JNum 1])]))
     (Some (JObj [(''a'', JArr [JNum 2, JNum 3])])) None =
   Some (JObj [(''a'', JArr [JNum 1, JNum 3])])"
  by code_simp

section \<open>Properties of the file collection\<close>

lemma keys_obj_set: "fst ` set (obj_set ob k v) = insert k (fst ` set ob)"
  using map_of_obj_set_fun [of ob k v]
  by (simp add: dom_map_of_conv_image_fst [symmetric])

lemma distinct_obj_set: "distinct (map fst ob) \<Longrightarrow> distinct (map fst (obj_set ob k v))"
  by (induction ob) (auto simp: keys_obj_set)

lemma replace_without_images:
  "replace_images None k s = Inr t \<Longrightarrow> t = drop k s"
proof (induction "None :: (string \<times> image_record) list option" k s arbitrary: t
    rule: replace_images.induct)
  case (1 k)
  then show ?case by simp
next
  case (2 k c cs)
  then show ?case by simp
next
  case (3 c cs)
  show ?case
  proof (cases "match_image (c # cs)")
    case None
    with "3.prems" obtain rest where "replace_images None 0 cs = Inr rest" and "t = c # rest"
      by (auto split: sum.splits)
    with "3.hyps"(1) [OF None] show ?thesis by simp
  next
    case (Some m)
    with "3.prems" show ?thesis
      by (cases m) (simp add: render_image_def)
  qed
qed

lemma no_proto_obj_set: "no_proto ob \<Longrightarrow> k \<noteq> ''__proto__'' \<Longrightarrow> no_proto (obj_set ob k v)"
  by (simp add: no_proto_def map_of_obj_set_fun)

lemma collect_loop_skip:
  "\<not> is_listed entry \<Longrightarrow>
   collect_loop rd imgs (entry # entries) acc = collect_loop rd imgs entries acc"
  by (auto simp: is_listed_def)

lemma collect_loop_proto:
  assumes "is_listed entry" and "entry_rel entry = ''__proto__''" and "no_proto acc"
  shows "collect_loop rd imgs (entry # entries) acc =
           (if ends_with (entry_path entry) ''/README.md''
            then Inl (TypeError ''files[entry[2]].replace is not a function'')
            else collect_loop rd imgs entries acc)"
  using assms
  by (simp add: is_listed_def no_proto_def obj_assign_def obj_read_def object_prototype_keys_def
      Let_def)

lemma collect_loop_step:
  assumes "is_listed entry" and "entry_rel entry \<noteq> ''__proto__''"
  shows "collect_loop rd imgs (entry # entries) acc =
           (case loaded_text rd imgs entry of
              Inl err \<Rightarrow> Inl err
            | Inr t \<Rightarrow> collect_loop rd imgs entries
                         (if ends_with (entry_path entry) ''/README.md''
                          then obj_set (obj_set acc (entry_rel entry) (rd (entry_path entry)))
                                 (entry_rel entry) t
                          else obj_set acc (entry_rel entry) t))"
  using assms
  by (simp add: is_listed_def loaded_text_def Let_def obj_assign_def obj_read_def
      map_of_obj_set_fun split: sum.splits)

declare collect_loop.simps(2) [simp del]

lemma collect_loop_loaded:
  assumes "collect_loop rd imgs entries acc = Inr files" and "no_proto acc"
    and "entry \<in> set entries" and "is_listed entry"
  shows "\<exists>t. loaded_text rd imgs entry = Inr t"
  using assms
proof (induction entries arbitrary: acc)
  case Nil
  then show ?case by simp
next
  case (Cons x xs)
  show ?case
  proof (cases "is_listed x")
    case False
    with Cons.prems have "collect_loop rd imgs xs acc = Inr files" and "entry \<in> set xs"
      by (auto simp: collect_loop_skip)
    from Cons.IH [OF this(1) Cons.prems(2) this(2) Cons.prems(4)] show ?thesis .
  next
    case True
    show ?thesis
    proof (cases "entry_rel x = ''__proto__''")
      case proto: True
      with True Cons.prems(1,2) have plain: "\<not> ends_with (entry_path x) ''/README.md''"
        and rest: "collect_loop rd imgs xs acc = Inr files"
        by (auto simp: collect_loop_proto split: if_splits)
      show ?thesis
      proof (cases "entry = x")
        case True
        with plain show ?thesis by (simp add: loaded_text_def)
      next
        case False
        with Cons.prems(3) have "entry \<in> set xs" by simp
        from Cons.IH [OF rest Cons.prems(2) this Cons.prems(4)] show ?thesis .
      qed
    next
      case other: False
      with True Cons.prems(1,2) obtain t acc' where t: "loaded_text rd imgs x = Inr t"
        and rest: "collect_loop rd imgs xs acc' = Inr files" and np: "no_proto acc'"
        by (auto simp: collect_loop_step no_proto_obj_set split: sum.splits if_splits)
      show ?thesis
      proof (cases "entry = x")
        case True
        with t show ?thesis by auto
      next
        case False
        with Cons.prems(3) have "entry \<in> set xs" by simp
        from Cons.IH [OF rest np this Cons.prems(4)] show ?thesis .
      qed
    qed
  qed
qed

lemma last_listed_mem:
  "last_listed entries p = Some entry \<Longrightarrow>
   entry \<in> set entries \<and> is_listed entry \<and> entry_rel entry = p"
  by (induction entries) (auto split: option.splits if_splits)

lemma collect_loop_map:
  assumes "collect_loop rd imgs entries acc = Inr files" and "no_proto acc"
    and "p \<noteq> ''__proto__''"
  shows "map_of files p =
           (case dir_files rd imgs entries p of Some t \<Rightarrow> Some t | None \<Rightarrow> map_of acc p)"
  using assms
proof (induction entries arbitrary: acc)
  case Nil
  then show ?case by (simp add: dir_files_def)
next
  case (Cons x xs)
  show ?case
  proof (cases "is_listed x \<and> entry_rel x \<noteq> ''__proto__''")
    case False
    with Cons.prems have rest: "collect_loop rd imgs xs acc = Inr files"
      by (cases "is_listed x") (auto simp: collect_loop_skip collect_loop_proto split: if_splits)
    from False Cons.prems(3) have "dir_files rd imgs (x # xs) p = dir_files rd imgs xs p"
      by (auto simp: dir_files_def split: option.splits)
    with Cons.IH [OF rest Cons.prems(2,3)] show ?thesis by simp
  next
    case True
    with Cons.prems obtain t acc' where t: "loaded_text rd imgs x = Inr t"
      and rest: "collect_loop rd imgs xs acc' = Inr files" and np: "no_proto acc'"
      and acc': "map_of acc' = (map_of acc)(entry_rel x \<mapsto> t)"
      by (auto simp: collect_loop_step map_of_obj_set_fun no_proto_obj_set
          split: sum.splits if_splits)
    show ?thesis
    proof (cases "last_listed xs p")
      case None
      with True t have "dir_files rd imgs (x # xs) p = (if entry_rel x = p then Some t else None)"
        by (simp add: dir_files_def)
      moreover from None have "dir_files rd imgs xs p = None"
        by (simp add: dir_files_def)
      ultimately show ?thesis
        using Cons.IH [OF rest np Cons.prems(3)] acc' by auto
    next
      case (Some y)
      then have "dir_files rd imgs (x # xs) p = dir_files rd imgs xs p"
        by (simp add: dir_files_def)
      moreover from last_listed_mem [OF Some] collect_loop_loaded [OF rest np, of y]
      obtain u where "loaded_text rd imgs y = Inr u" by auto
      with Some have "dir_files rd imgs xs p = Some u"
        by (simp add: dir_files_def)
      ultimately show ?thesis
        using Cons.IH [OF rest np Cons.prems(3)] by simp
    qed
  qed
qed

lemma collect_loop_no_proto:
  assumes "collect_loop rd imgs entries acc = Inr files" and "no_proto acc"
  shows "no_proto files"
  using assms
proof (induction entries arbitrary: acc)
  case Nil
  then show ?case by simp
next
  case (Cons x xs)
  show ?case
  proof (cases "is_listed x")
    case False
    with Cons show ?thesis by (simp add: collect_loop_skip)
  next
    case True
    show ?thesis
    proof (cases "entry_rel x = ''__proto__''")
      case proto: True
      with True Cons.prems have "collect_loop rd imgs xs acc = Inr files"
        by (auto simp: collect_loop_proto split: if_splits)
      from Cons.IH [OF this Cons.prems(2)] show ?thesis .
    next
      case other: False
      with True Cons.prems obtain acc' where "collect_loop rd imgs xs acc' = Inr files"
        and "no_proto acc'"
        by (auto simp: collect_loop_step no_proto_obj_set split: sum.splits if_splits)
      then show ?thesis by (rule Cons.IH)
    qed
  qed
qed

lemma collect_loop_distinct:
  assumes "collect_loop rd imgs entries acc = Inr files" and "distinct (map fst acc)"
    and "no_proto acc"
  shows "distinct (map fst files)"
  using assms
proof (induction entries arbitrary: acc)
  case Nil
  then show ?case by simp
next
  case (Cons x xs)
  show ?case
  proof (cases "is_listed x")
    case False
    with Cons show ?thesis by (simp add: collect_loop_skip)
  next
    case True
    show ?thesis
    proof (cases "entry_rel x = ''__proto__''")
      case proto: True
      with True Cons.prems have "collect_loop rd imgs xs acc = Inr files"
        by (auto simp: collect_loop_proto split: if_splits)
      from Cons.IH [OF this Cons.prems(2,3)] show ?thesis .
    next
      case other: False
      with True Cons.prems obtain acc' where "collect_loop rd imgs xs acc' = Inr files"
        and "distinct (map fst acc')" and "no_proto acc'"
        by (auto simp: collect_loop_step distinct_obj_set no_proto_obj_set
            split: sum.splits if_splits)
      then show ?thesis by (rule Cons.IH)
    qed
  qed
qed

lemma last_listed_append:
  "last_listed (xs @ ys) p =
     (case last_listed ys p of Some x \<Rightarrow> Some x | None \<Rightarrow> last_listed xs p)"
  by (induction xs) (auto split: option.splits)

lemma last_listed_not_reserved: "p \<in> set reserved_names \<Longrightarrow> last_listed entries p = None"
  by (induction entries) (auto simp: is_listed_def split: option.splits)

text \<open>
  What the collection computes.  When it ends without an error, the file set, read as a
  map from relative path to text, is the map of the template directory overridden by the
  map of the lesson directory (\<open>++\<close> gives the right-hand map priority), without the
  path \<open>__proto__\<close>; every key occurs once; and no reserved name is a key.
\<close>

lemma file_set_is_overlay:
  assumes "collect_files rd imgs lesson_walk template_walk = Inr files"
  shows "map_of files =
           (dir_files rd imgs (walk_of template_walk) ++ dir_files rd imgs lesson_walk)
             |` (- {''__proto__''}) \<and>
         distinct (map fst files) \<and>
         set reserved_names \<inter> fst ` set files = {}"
proof -
  let ?t = "walk_of template_walk"
  have np: "no_proto []" by (simp add: no_proto_def)
  from assms have loop: "collect_loop rd imgs (?t @ lesson_walk) [] = Inr files"
    by (simp add: collect_files_def walk_of_def)
  have at: "map_of files p = dir_files rd imgs (?t @ lesson_walk) p" if "p \<noteq> ''__proto__''" for p
    using collect_loop_map [OF loop np that] by (simp split: option.splits)
  have proto: "map_of files ''__proto__'' = None"
    using collect_loop_no_proto [OF loop np] by (simp add: no_proto_def)
  have split: "dir_files rd imgs (?t @ lesson_walk) p =
                 (dir_files rd imgs ?t ++ dir_files rd imgs lesson_walk) p" for p
  proof (cases "last_listed lesson_walk p")
    case None
    then show ?thesis
      by (simp add: dir_files_def last_listed_append map_add_def)
  next
    case (Some y)
    with last_listed_mem [OF Some] collect_loop_loaded [OF loop np, of y]
    obtain u where "loaded_text rd imgs y = Inr u" by auto
    with Some show ?thesis
      by (simp add: dir_files_def last_listed_append map_add_def)
  qed
  have "map_of files =
          (dir_files rd imgs ?t ++ dir_files rd imgs lesson_walk) |` (- {''__proto__''})"
  proof (rule ext)
    fix p
    show "map_of files p =
            ((dir_files rd imgs ?t ++ dir_files rd imgs lesson_walk) |` (- {''__proto__''})) p"
      by (cases "p = ''__proto__''") (simp_all add: proto at split restrict_map_def)
  qed
  moreover have "distinct (map fst files)"
    using collect_loop_distinct [OF loop _ np] by simp
  moreover have "set reserved_names \<inter> fst ` set files = {}"
  proof -
    have "p \<notin> fst ` set files" if "p \<in> set reserved_names" for p
    proof -
      from that have "p \<noteq> ''__proto__''" by (auto simp: reserved_names_def)
      with that have "map_of files p = None"
        by (simp add: at dir_files_def last_listed_not_reserved)
      then show ?thesis
        by (simp add: map_of_eq_None_iff)
    qed
    then show ?thesis by blast
  qed
  ultimately show ?thesis by simp
qed

text \<open>
  \<open>upload\<close> starts with \<open>images: null\<close>, and no manifest step sets the field.  With
  no image table a README that passes has no placeholder and is stored as it is, so the
  texts of the set are the texts of the files.
\<close>

lemma loaded_without_images:
  "loaded_text rd None entry = Inr t \<Longrightarrow> t = rd (entry_path entry)"
  by (auto simp: loaded_text_def dest: replace_without_images split: if_splits)

lemma file_set_without_images:
  assumes "collect_files rd None lesson_walk template_walk = Inr files"
  shows "map_of files =
           (raw_files rd (walk_of template_walk) ++ raw_files rd lesson_walk)
             |` (- {''__proto__''})"
proof -
  let ?t = "walk_of template_walk"
  have np: "no_proto []" by (simp add: no_proto_def)
  from assms have loop: "collect_loop rd None (?t @ lesson_walk) [] = Inr files"
    by (simp add: collect_files_def walk_of_def)
  have raw: "dir_files rd None entries p = raw_files rd entries p"
    if "set entries \<subseteq> set (?t @ lesson_walk)" for entries p
  proof (cases "last_listed entries p")
    case None
    then show ?thesis by (simp add: dir_files_def raw_files_def)
  next
    case (Some y)
    with last_listed_mem [OF Some] that collect_loop_loaded [OF loop np, of y]
    obtain u where u: "loaded_text rd None y = Inr u" by auto
    with loaded_without_images [OF u] Some show ?thesis
      by (simp add: dir_files_def raw_files_def)
  qed
  have "dir_files rd None ?t = raw_files rd ?t" "dir_files rd None lesson_walk = raw_files rd lesson_walk"
    by (rule ext, rule raw, simp)+
  with file_set_is_overlay [OF assms] show ?thesis by simp
qed

text \<open>The example of the specification.\<close>

lemma overlay_example:
  "collect_files overlay_texts None overlay_lesson (Some overlay_template) =
     Inr [(''a'', ''1''), (''b'', ''3''), (''c'', ''4'')]"
  by code_simp

text \<open>With an image table, the placeholder of a README is replaced.\<close>

lemma readme_is_rewritten:
  "collect_files readme_text cat_images readme_lesson None =
     Inr [(''README.md'',
           ''See ![{640x480}](https://img.cdn.cratecode.com/userfiles/img/c1.png).'')]"
  by code_simp

text \<open>
  Claim C8.  The claim says that the computed set is the overlay of the files of the two
  directories, and the code collects them for that (\<open>files[entry[2]] = ...\<close> for every
  file that is not reserved).  But the set is a plain object, and the assignment to the
  key \<open>__proto__\<close> stores nothing: a file of that name is lost.  For the lesson
  directory with the files \<open>__proto__\<close> (text \<open>x\<close>) and \<open>a\<close> (text \<open>1\<close>) the
  computed set is \<open>{a: "1"}\<close>, although \<open>__proto__\<close> is a file of the directory and
  its name is not reserved.
\<close>

theorem proto_file_is_dropped:
  "collect_files proto_texts None proto_lesson None = Inr [(''a'', ''1'')] \<and>
   raw_files proto_texts proto_lesson ''__proto__'' = Some ''x'' \<and>
   ''__proto__'' \<notin> set reserved_names"
  by code_simp

end
